(* ===== verification/ZUC_Prelude.thy ===== *)
theory ZUC_Prelude
  imports Main "HOL-Library.Word"
begin

text \<open>
  Shared vocabulary of the ZUC development: the machine types of the Go sources
  (\<open>uint8\<close> as \<open>u8\<close>, \<open>uint32\<close> as \<open>u32\<close>), the run-time failures a Go program of
  this repository can hit (an explicit \<open>panic\<close>, an index out of range, a nil
  dereference) as a datatype, Go's bounds-checked slice read, \<open>copy\<close> and \<open>binary.BigEndian.PutUint32\<close>, and the word lemmas
  the component theories share.
\<close>

unbundle bit_operations_syntax

type_synonym u8 = "8 word"
type_synonym u32 = "32 word"

text \<open>A Go run-time failure: the model returns \<open>Inl\<close> of one of these.\<close>

datatype panic =
    NotInitialized    \<comment> \<open>\<open>panic("ZUC not initialized.")\<close> in \<open>NextKey\<close>\<close>
  | IndexOutOfRange   \<comment> \<open>a slice index outside \<open>[0, len)\<close>\<close>
  | NilDereference    \<comment> \<open>a field read or write through a nil pointer\<close>

text \<open>Go's bounds-checked read \<open>xs[i]\<close> of a slice.\<close>

definition slice_get :: "'a list \<Rightarrow> nat \<Rightarrow> panic + 'a" where
  "slice_get xs i = (if i < length xs then Inr (xs ! i) else Inl IndexOutOfRange)"

subsection \<open>Go library functions used by EEA3 and EIA3\<close>

text \<open>\<open>binary.BigEndian.PutUint32\<close>: the four bytes of a word, most significant first.\<close>

definition put_uint32_be :: "u32 \<Rightarrow> u8 list" where
  "put_uint32_be x = [ucast (drop_bit 24 x), ucast (drop_bit 16 x), ucast (drop_bit 8 x), ucast x]"

text \<open>
  \<open>copy(dst[a:b], src)\<close>: copies \<open>min (b - a) (len src)\<close> bytes of \<open>src\<close> into
  \<open>dst\<close> from position \<open>a\<close> on (the callers' slice bounds are constants within
  \<open>dst\<close>).
\<close>

definition copy_slice :: "'a list \<Rightarrow> nat \<Rightarrow> nat \<Rightarrow> 'a list \<Rightarrow> 'a list" where
  "copy_slice dst a b src =
     (let n = min (b - a) (length src) in take a dst @ take n src @ drop (a + n) dst)"

named_theorems zuc_bounds "bounds on the values of word expressions of the ZUC model"

lemma slice_get_in_range [simp]: "i < length xs \<Longrightarrow> slice_get xs i = Inr (xs ! i)"
  by (simp add: slice_get_def)

lemma slice_get_out_of_range [simp]: "length xs \<le> i \<Longrightarrow> slice_get xs i = Inl IndexOutOfRange"
  by (simp add: slice_get_def)

lemma unat_drop_bit_24_u32 [zuc_bounds]: "unat (drop_bit 24 (x :: u32)) < 256"
proof -
  have "unat (drop_bit 24 x) = unat x div 2 ^ 24"
    by (simp add: drop_bit_eq_div unat_div)
  moreover have "unat x < 2 ^ 32"
    using unsigned_less [of x] by simp
  ultimately show ?thesis by simp
qed

lemma unat_and_0xFF_u32 [zuc_bounds]: "unat ((x :: u32) AND 0xFF) < 256"
proof -
  have "unat (x AND 0xFF) \<le> unat (0xFF :: u32)"
    by (rule word_and_le1 [THEN word_le_nat_alt [THEN iffD1]])
  then show ?thesis by simp
qed

lemma bit_unat_less_exp:
  fixes x :: "'a::len word"
  assumes "unat x < 2 ^ n" "bit x i"
  shows "i < n"
proof -
  from assms(2) have "bit (unat x) i" by (simp add: bit_unsigned_iff)
  moreover have "take_bit n (unat x) = unat x"
    using assms(1) by (simp add: take_bit_nat_eq_self_iff)
  ultimately have "bit (take_bit n (unat x)) i" by simp
  then show "i < n" by (simp add: bit_take_bit_iff)
qed

text \<open>Ranges of the unsigned readings, in the numeral form the simplifier leaves them.\<close>

lemma unat_u8_bound [simp]: "unat (x :: u8) < 256"
proof -
  have "unat x < 2 ^ LENGTH(8)" by (rule unsigned_less)
  then show ?thesis by simp
qed

lemma unat_u32_bound [simp]: "unat (x :: u32) < 4294967296"
proof -
  have "unat x < 2 ^ LENGTH(32)" by (rule unsigned_less)
  then show ?thesis by simp
qed

text \<open>A \<open>uint32\<close> sum that overflows loses exactly \<open>2^32\<close>.\<close>

lemma unat_add_wrap_u32:
  assumes "4294967296 \<le> unat a + unat (b :: u32)"
  shows "unat (a + b) = unat a + unat b - 4294967296"
proof -
  have "unat a < 4294967296" "unat b < 4294967296"
    by (rule unat_u32_bound)+
  then have "unat a + unat b - 4294967296 < 4294967296"
    by linarith
  moreover have "(unat a + unat b) mod 4294967296 = (unat a + unat b - 4294967296) mod 4294967296"
    using assms by (simp add: le_mod_geq)
  ultimately show ?thesis
    by (simp add: unat_word_ariths(1))
qed

text \<open>The increment of a \<open>uint32\<close> loop counter below its bound does not wrap.\<close>

lemma unat_incr_less:
  assumes "(i :: u32) < len"
  shows "unat (i + 1) = Suc (unat i)"
proof -
  have "unat i < unat len" "unat len < 4294967296"
    using assms by (simp_all add: word_less_nat_alt)
  then have "unat i + 1 < 4294967296"
    by linarith
  then show ?thesis
    by (simp add: unat_word_ariths(1))
qed

lemma unat_u8_le [simp]: "unat (x :: u8) \<le> 255"
  using unat_u8_bound [of x] by linarith

lemma unat_ucast_u8_u32 [simp]: "unat (ucast (x :: u8) :: u32) = unat x"
proof -
  have "unat x < 2 ^ 32" by (rule less_trans [OF unat_u8_bound]) simp
  then show ?thesis by (simp add: unsigned_ucast_eq take_bit_nat_eq_self_iff)
qed

end
