(* ===== verification/Common.thy ===== *)
theory Common
  imports ZUC_Prelude
begin

text \<open>
  The word-level helpers of \<open>src/common.go\<close>: the key direction constants, the
  addition modulo the Mersenne prime \<open>2^31 - 1\<close> (\<open>addM\<close>), the multiplication by a
  power of two in that field (\<open>mulByPow2\<close>, a 31-bit rotation), the 32-bit rotation
  \<open>rot\<close>, the byte packers \<open>makeU32\<close> and \<open>makeU31\<close>, and the two linear diffusion
  transforms \<open>l1\<close>, \<open>l2\<close>, shown to be permutations with explicit inverses.
  Go's shift operators are \<open>push_bit\<close> (\<open><<\<close>) and \<open>drop_bit\<close> (\<open>>>\<close>); a
  shift count of the word width or more gives 0 in Go and in HOL alike. The count operands are \<open>uint8\<close> in the source, so \<open>31 - k\<close> and
  \<open>32 - k\<close> are computed modulo 256 as Go does.
\<close>

unbundle bit_operations_syntax

subsection \<open>Definitions\<close>

type_synonym KeyDirection = u32

definition KEY_UPLINK :: KeyDirection where
  "KEY_UPLINK = 0"

definition KEY_DOWNLINK :: KeyDirection where
  "KEY_DOWNLINK = 1"

definition addM :: "u32 \<Rightarrow> u32 \<Rightarrow> u32" where
  "addM a b = (let c = a + b in (c AND 0x7fffffff) + drop_bit 31 c)"

definition mulByPow2 :: "u32 \<Rightarrow> u8 \<Rightarrow> u32" where
  "mulByPow2 x k = (push_bit (unat k) x OR drop_bit (unat (31 - k)) x) AND 0x7FFFFFFF"

definition rot :: "u32 \<Rightarrow> u8 \<Rightarrow> u32" where
  "rot a k = push_bit (unat k) a OR drop_bit (unat (32 - k)) a"

definition makeU32 :: "u8 \<Rightarrow> u8 \<Rightarrow> u8 \<Rightarrow> u8 \<Rightarrow> u32" where
  "makeU32 a b c d =
     push_bit 24 (ucast a) OR push_bit 16 (ucast b) OR push_bit 8 (ucast c) OR ucast d"

definition makeU31 :: "u32 \<Rightarrow> u32 \<Rightarrow> u32 \<Rightarrow> u32" where
  "makeU31 a b c = push_bit 23 a OR push_bit 8 b OR c"

definition l1 :: "u32 \<Rightarrow> u32" where
  "l1 x = x XOR rot x 2 XOR rot x 10 XOR rot x 18 XOR rot x 24"

definition l2 :: "u32 \<Rightarrow> u32" where
  "l2 x = x XOR rot x 8 XOR rot x 14 XOR rot x 22 XOR rot x 30"

text \<open>
  The inverses of the diffusion transforms, as sums of the library's left
  rotations \<open>word_rotl\<close>. \<open>L1\<close> is the polynomial
  \<open>1 + x\<^sup>2 + x\<^sup>1\<^sup>0 + x\<^sup>1\<^sup>8 + x\<^sup>2\<^sup>4\<close> over \<open>GF(2)\<close> modulo \<open>x\<^sup>3\<^sup>2 + 1\<close>
  acting on the word; its inverse there is its 31st power, and the same holds
  for \<open>L2\<close>.
\<close>

definition L1_inv :: "u32 \<Rightarrow> u32" where
  "L1_inv x = x XOR word_rotl 2 x XOR word_rotl 4 x XOR word_rotl 8 x XOR word_rotl 12 x
     XOR word_rotl 14 x XOR word_rotl 16 x XOR word_rotl 18 x XOR word_rotl 22 x
     XOR word_rotl 24 x XOR word_rotl 30 x"

definition L2_inv :: "u32 \<Rightarrow> u32" where
  "L2_inv x = x XOR word_rotl 2 x XOR word_rotl 8 x XOR word_rotl 10 x XOR word_rotl 14 x
     XOR word_rotl 16 x XOR word_rotl 18 x XOR word_rotl 20 x XOR word_rotl 24 x
     XOR word_rotl 28 x XOR word_rotl 30 x"

subsection \<open>Addition modulo \<open>2^31 - 1\<close>\<close>

text \<open>
  The Mersenne prime of the LFSR field, and the representation the code keeps: a
  residue is stored in \<open>[1, p]\<close>, the residue \<open>0\<close> as \<open>p = 2^31 - 1\<close> itself
  (\<open>m31_norm\<close>). This is the abstract specification \<open>addM\<close> and \<open>mulByPow2\<close>
  implement.
\<close>

abbreviation p31 :: nat where
  "p31 \<equiv> 2 ^ 31 - 1"

definition m31_norm :: "nat \<Rightarrow> nat" where
  "m31_norm t = (if t mod p31 = 0 then p31 else t mod p31)"


lemma m31_norm_range: "1 \<le> m31_norm t" "m31_norm t \<le> p31"
  by (simp_all add: m31_norm_def)

text \<open>The same bounds in the form the simplifier leaves them (\<open>p31\<close> evaluated).\<close>

lemma m31_norm_bounds [simp]: "Suc 0 \<le> m31_norm t" "m31_norm t \<le> 2147483647"
  using m31_norm_range [of t] by simp_all

lemma m31_norm_mod: "m31_norm t mod p31 = t mod p31"
  by (simp add: m31_norm_def)

lemma m31_norm_cong: "a mod p31 = b mod p31 \<Longrightarrow> m31_norm a = m31_norm b"
  by (simp add: m31_norm_def)

lemma m31_norm_add_left [simp]: "m31_norm (m31_norm a + b) = m31_norm (a + b)"
  by (rule m31_norm_cong) (metis m31_norm_mod mod_add_left_eq)

lemma m31_norm_add_right [simp]: "m31_norm (a + m31_norm b) = m31_norm (a + b)"
  by (rule m31_norm_cong) (metis m31_norm_mod mod_add_right_eq)

lemma unat_add_no_wrap:
  fixes a b :: u32
  assumes "unat a + unat b < 2 ^ 32"
  shows "unat (a + b) = unat a + unat b"
  using assms by (simp add: unat_add_lem [symmetric])

lemma unat_and_0x7fffffff: "unat ((c :: u32) AND 0x7fffffff) = unat c mod 2 ^ 31"
proof -
  have "(0x7fffffff :: u32) = mask 31" by (simp add: mask_eq_exp_minus_1)
  then have "c AND 0x7fffffff = take_bit 31 c" by (simp add: take_bit_eq_mask)
  then show ?thesis by (simp only: unsigned_take_bit_eq take_bit_eq_mod [where 'a = nat])
qed

lemma unat_drop_bit_u32: "unat (drop_bit n (c :: u32)) = unat c div 2 ^ n"
  by (simp only: unat_drop_bit_eq drop_bit_eq_div [where 'a = nat])

lemma unat_addM:
  assumes "unat a + unat b < 2 ^ 32"
  shows "unat (addM a b) = (unat a + unat b) mod 2 ^ 31 + (unat a + unat b) div 2 ^ 31"
proof -
  let ?s = "unat a + unat b"
  have c: "unat (a + b) = ?s" using assms by (rule unat_add_no_wrap)
  have lo: "unat ((a + b) AND 0x7fffffff) = ?s mod 2 ^ 31"
    by (simp only: unat_and_0x7fffffff c)
  have hi: "unat (drop_bit 31 (a + b)) = ?s div 2 ^ 31"
    by (simp only: unat_drop_bit_u32 c)
  have "?s div 2 ^ 31 < 2" using assms by simp
  moreover have "?s mod 2 ^ 31 < 2 ^ 31" by simp
  ultimately have "unat ((a + b) AND 0x7fffffff) + unat (drop_bit 31 (a + b)) < 2 ^ 32"
    by (simp add: lo hi)
  then have "unat (((a + b) AND 0x7fffffff) + drop_bit 31 (a + b)) = ?s mod 2 ^ 31 + ?s div 2 ^ 31"
    by (simp only: unat_add_no_wrap lo hi)
  then show ?thesis by (simp add: addM_def Let_def)
qed

lemma m31_norm_unique:
  assumes "1 \<le> r" "r \<le> p31" "r mod p31 = t mod p31"
  shows "r = m31_norm t"
proof (cases "r = p31")
  case True
  with assms(3) show ?thesis by (simp add: m31_norm_def)
next
  case False
  with assms(2) have "r < p31" by simp
  then have "r mod p31 = r" by simp
  with assms(1,3) show ?thesis by (auto simp: m31_norm_def)
qed

lemma m31_fold_mod: "(s mod 2 ^ 31 + s div 2 ^ 31) mod p31 = (s :: nat) mod p31"
proof -
  have "s = 2 ^ 31 * (s div 2 ^ 31) + s mod 2 ^ 31" by simp
  also have "\<dots> = p31 * (s div 2 ^ 31) + (s mod 2 ^ 31 + s div 2 ^ 31)" by simp
  finally have "s mod p31 = (p31 * (s div 2 ^ 31) + (s mod 2 ^ 31 + s div 2 ^ 31)) mod p31"
    by (rule arg_cong)
  then show ?thesis by (simp only: mod_mult_self4)
qed

lemma m31_fold_range:
  assumes "1 \<le> s" "s \<le> 2 * p31"
  shows "1 \<le> s mod 2 ^ 31 + s div 2 ^ 31" "s mod 2 ^ 31 + s div 2 ^ 31 \<le> p31"
  using assms by (auto simp: div_if mod_if)

lemma addM_m31:
  assumes "unat a \<le> p31" "unat b \<le> p31" "1 \<le> unat a + unat b"
  shows "unat (addM a b) = m31_norm (unat a + unat b)"
proof -
  let ?s = "unat a + unat b"
  have "?s \<le> 2 * p31" using assms(1,2) by simp
  then have "?s < 2 ^ 32" by simp
  then have r: "unat (addM a b) = ?s mod 2 ^ 31 + ?s div 2 ^ 31" by (rule unat_addM)
  show ?thesis
    unfolding r
    by (rule m31_norm_unique [OF m31_fold_range m31_fold_mod]) (use assms \<open>?s \<le> 2 * p31\<close> in simp_all)
qed

subsection \<open>Multiplication by a power of two modulo \<open>2^31 - 1\<close>\<close>

lemma mulByPow2_split:
  assumes x: "unat x < 2 ^ 31" and k: "unat k < 31"
  shows "mulByPow2 x k = take_bit 31 (push_bit (unat k) x) + drop_bit (31 - unat k) x"
proof -
  let ?n = "unat k"
  have sub: "unat (31 - k) = 31 - ?n"
    using k by (simp add: unat_sub word_le_nat_alt)
  have hi: "bit x i \<Longrightarrow> i < 31" for i
    using x by (rule bit_unat_less_exp)
  have m: "(0x7FFFFFFF :: u32) = mask 31" by (simp add: mask_eq_exp_minus_1)
  have "mulByPow2 x k = (push_bit ?n x OR drop_bit (31 - ?n) x) AND mask 31"
    by (simp only: mulByPow2_def sub m)
  also have "\<dots> = take_bit 31 (push_bit ?n x) OR drop_bit (31 - ?n) x"
    by (rule bit_word_eqI) (auto simp: bit_simps dest: hi)
  also have "\<dots> = take_bit 31 (push_bit ?n x) + drop_bit (31 - ?n) x"
    by (rule disjunctive_add [symmetric]) (auto simp: bit_simps dest: hi)
  finally show ?thesis .
qed

lemma rot31_m31:
  fixes x n :: nat
  assumes x1: "1 \<le> x" and xp: "x \<le> p31" and n: "n < 31"
  shows "(x * 2 ^ n) mod 2 ^ 31 + x div 2 ^ (31 - n) = m31_norm (x * 2 ^ n)"
proof -
  define h l where "h = x div 2 ^ (31 - n)" and "l = x mod 2 ^ (31 - n)"
  have xhl: "x = h * 2 ^ (31 - n) + l"
    unfolding h_def l_def by (rule div_mult_mod_eq [symmetric])
  have l: "l < 2 ^ (31 - n)" by (simp add: l_def)
  have e: "(2::nat) ^ (31 - n) * 2 ^ n = 2 ^ 31"
    using n by (simp flip: power_add)
  have "x * 2 ^ n = h * (2 ^ (31 - n) * 2 ^ n) + l * 2 ^ n"
    by (subst xhl) (simp add: algebra_simps)
  then have xs: "x * 2 ^ n = h * 2 ^ 31 + l * 2 ^ n"
    by (simp only: e)
  have "(l + 1) * 2 ^ n \<le> 2 ^ (31 - n) * 2 ^ n"
    using l by (intro mult_right_mono) simp_all
  then have "(l + 1) * 2 ^ n \<le> 2 ^ 31" by (simp only: e)
  then have l2: "l * 2 ^ n + 2 ^ n \<le> 2 ^ 31" by (simp add: algebra_simps)
  have "0 < (2::nat) ^ n" by simp
  with l2 have l3: "l * 2 ^ n < 2 ^ 31" by linarith
  have lo: "(x * 2 ^ n) mod 2 ^ 31 = l * 2 ^ n"
    by (simp only: xs mod_mult_self3 mod_less [OF l3])
  have "x < 2 ^ n * 2 ^ (31 - n)" using xp e by (simp add: mult.commute)
  then have h: "h < 2 ^ n" unfolding h_def by (rule less_mult_imp_div_less)
  have r: "(x * 2 ^ n) mod 2 ^ 31 + x div 2 ^ (31 - n) = l * 2 ^ n + h"
    by (simp only: lo h_def)
  show ?thesis
  proof (rule m31_norm_unique)
    show "1 \<le> (x * 2 ^ n) mod 2 ^ 31 + x div 2 ^ (31 - n)"
      unfolding r using x1 xhl by (cases "h = 0") (simp_all add: Suc_le_eq)
    show "(x * 2 ^ n) mod 2 ^ 31 + x div 2 ^ (31 - n) \<le> p31"
      unfolding r using l2 h by simp
    have e2: "x * 2 ^ n = p31 * h + (l * 2 ^ n + h)" by (simp add: xs)
    show "((x * 2 ^ n) mod 2 ^ 31 + x div 2 ^ (31 - n)) mod p31 = (x * 2 ^ n) mod p31"
      unfolding r by (simp only: e2 mod_mult_self4)
  qed
qed

lemma unat_mulByPow2:
  assumes x: "unat x < 2 ^ 31" and k: "unat k < 31"
  shows "unat (mulByPow2 x k) = (unat x * 2 ^ unat k) mod 2 ^ 31 + unat x div 2 ^ (31 - unat k)"
proof -
  let ?n = "unat k"
  have "unat (take_bit 31 (push_bit ?n x)) = take_bit 31 (take_bit 32 (push_bit ?n (unat x)))"
    by (simp only: unsigned_take_bit_eq unsigned_push_bit_eq) simp
  also have "\<dots> = take_bit 31 (push_bit ?n (unat x))"
    by (simp only: take_bit_take_bit)
  also have "\<dots> = (unat x * 2 ^ ?n) mod 2 ^ 31"
    by (simp only: push_bit_eq_mult take_bit_eq_mod [where 'a = nat])
  finally have a: "unat (take_bit 31 (push_bit ?n x)) = (unat x * 2 ^ ?n) mod 2 ^ 31" .
  have b: "unat (drop_bit (31 - ?n) x) = unat x div 2 ^ (31 - ?n)"
    by (rule unat_drop_bit_u32)
  have "(unat x * 2 ^ ?n) mod 2 ^ 31 < 2 ^ 31" by simp
  moreover have "unat x div 2 ^ (31 - ?n) < 2 ^ 31"
    using x by (meson div_le_dividend le_less_trans)
  ultimately have "(unat x * 2 ^ ?n) mod 2 ^ 31 + unat x div 2 ^ (31 - ?n) < 2 ^ 32"
    by simp
  then show ?thesis
    by (simp only: mulByPow2_split [OF x k] unat_add_no_wrap a b)
qed

lemma mulByPow2_m31:
  assumes "1 \<le> unat x" "unat x \<le> p31" "unat k < 31"
  shows "unat (mulByPow2 x k) = m31_norm (unat x * 2 ^ unat k)"
proof -
  have "unat x < 2 ^ 31" using assms(2) by simp
  then show ?thesis
    using assms by (simp only: unat_mulByPow2 rot31_m31)
qed


lemma addM_mulByPow2_m31:
  assumes "1 \<le> unat f" "unat f \<le> p31" "1 \<le> unat x" "unat x \<le> p31" "unat k < 31"
  shows "unat (addM f (mulByPow2 x k)) = m31_norm (unat f + unat x * 2 ^ unat k)"
proof -
  have m: "unat (mulByPow2 x k) = m31_norm (unat x * 2 ^ unat k)"
    using assms(3-5) by (rule mulByPow2_m31)
  have "unat (addM f (mulByPow2 x k)) = m31_norm (unat f + unat (mulByPow2 x k))"
    using assms(1,2) by (intro addM_m31) (simp_all add: m)
  then show ?thesis by (simp add: m)
qed

subsection \<open>Rotation and the diffusion transforms\<close>

lemma rot_word_rotl:
  assumes k: "unat k \<le> 32"
  shows "rot a k = word_rotl (unat k) a"
proof (cases "unat k = 32")
  case True
  then have "k = 32" by (simp add: word_unat_eq_iff)
  moreover have "word_rotl 32 a = a" by (rule bit_word_eqI) (simp add: bit_simps)
  ultimately show ?thesis by (simp add: rot_def)
next
  case False
  with k have n: "unat k < 32" by simp
  have sub: "unat (32 - k) = 32 - unat k"
    using k by (simp add: unat_sub word_le_nat_alt)
  show ?thesis
  proof (rule bit_word_eqI)
    fix i assume i: "i < LENGTH(32)"
    show "bit (rot a k) i = bit (word_rotl (unat k) a) i"
    proof (cases "unat k \<le> i")
      case True
      then have "(i + (32 - unat k mod 32)) mod 32 = i - unat k"
        using n i by (simp add: mod_if)
      then show ?thesis
        using True i n by (auto simp: rot_def sub bit_simps dest: bit_imp_le_length)
    next
      case False
      then have "(i + (32 - unat k mod 32)) mod 32 = i + (32 - unat k)"
        using n i by (simp add: mod_if)
      then show ?thesis
        using False i n by (auto simp: rot_def sub bit_simps) (metis add.commute)+
    qed
  qed
qed

text \<open>
  The ZUC specification writes \<open>L1\<close> and \<open>L2\<close> with the left rotation
  \<open><<<\<close>; \<open>rot\<close> is that rotation for the counts the code uses, so both
  transforms are sums of rotations. Rotations are normalised to right rotations
  by counts below 32, after which the XOR of the terms cancels pairwise.
\<close>

lemma l1_rotl: "l1 x = x XOR word_rotl 2 x XOR word_rotl 10 x XOR word_rotl 18 x XOR word_rotl 24 x"
  by (simp add: l1_def rot_word_rotl)

lemma l2_rotl: "l2 x = x XOR word_rotl 8 x XOR word_rotl 14 x XOR word_rotl 22 x XOR word_rotl 30 x"
  by (simp add: l2_def rot_word_rotl)

lemma word_rotr_u32_wrap: "32 \<le> n \<Longrightarrow> word_rotr n (w :: u32) = word_rotr (n - 32) w"
  by (rule bit_word_eqI)
    (auto simp: bit_word_rotr_iff le_mod_geq add_diff_assoc2 [symmetric] simp del: add_diff_assoc2)

lemma word_rotr_0 [simp]: "word_rotr 0 w = w"
  by (rule bit_word_eqI) (simp add: bit_word_rotr_iff)

lemma xor_cancel_left: "x XOR (x XOR y) = (y :: 'a :: len word)"
  by (simp add: xor.assoc [symmetric])

lemmas rot_normal =
  word_rotl_eq_word_rotr word_rotr_word_rotr_eq word_rotr_u32_wrap word_rot_logs(8)

lemma l1_L1_inv: "l1 (L1_inv x) = x" "L1_inv (l1 x) = x"
  unfolding l1_rotl L1_inv_def
  by (simp_all add: rot_normal ac_simps xor_cancel_left)

lemma l2_L2_inv: "l2 (L2_inv x) = x" "L2_inv (l2 x) = x"
  unfolding l2_rotl L2_inv_def
  by (simp_all add: rot_normal ac_simps xor_cancel_left)

lemma bij_inv_by_inverse:
  assumes "\<And>x. f (g x) = x" "\<And>x. g (f x) = x"
  shows "bij f \<and> inv f = g"
proof -
  have "f \<circ> g = id" "g \<circ> f = id" using assms by (simp_all add: fun_eq_iff)
  then show ?thesis by (metis o_bij inv_unique_comp)
qed

text \<open>
  C9: The diffusion transform \<open>L1\<close> of \<open>F\<close> is a permutation of the 32-bit
  words, and its inverse is the XOR of the rotations by 0, 2, 4, 8, 12, 14, 16,
  18, 22, 24 and 30 bits.
\<close>

theorem l1_bij: "bij l1 \<and> inv l1 = L1_inv"
  by (rule bij_inv_by_inverse) (simp_all add: l1_L1_inv)

text \<open>
  C10: The diffusion transform \<open>L2\<close> is a permutation of the 32-bit words, and
  its inverse is the XOR of the rotations by 0, 2, 8, 10, 14, 16, 18, 20, 24, 28
  and 30 bits.
\<close>

theorem l2_bij: "bij l2 \<and> inv l2 = L2_inv"
  by (rule bij_inv_by_inverse) (simp_all add: l2_L2_inv)

subsection \<open>Byte packing\<close>

text \<open>
  C8: Splitting a word into its four big-endian bytes and packing them again
  with \<open>makeU32\<close> gives the word back.
\<close>

lemma makeU32_bytes:
  "makeU32 (ucast (drop_bit 24 u)) (ucast (drop_bit 16 u)) (ucast (drop_bit 8 u)) (ucast u) = u"
proof (rule bit_word_eqI)
  fix n assume "n < LENGTH(32)"
  then have "n < 32" by simp
  then consider "n < 8" | "8 \<le> n \<and> n < 16" | "16 \<le> n \<and> n < 24" | "24 \<le> n \<and> n < 32"
    by linarith
  then show "bit (makeU32 (ucast (drop_bit 24 u)) (ucast (drop_bit 16 u)) (ucast (drop_bit 8 u)) (ucast u)) n
      = bit u n"
    by cases (auto simp: makeU32_def bit_simps)
qed

lemma makeU32_byte0: "ucast (drop_bit 24 (makeU32 a b c d)) = a"
  by (rule bit_word_eqI) (auto simp: makeU32_def bit_simps dest: bit_imp_le_length)

lemma makeU32_byte1: "ucast (drop_bit 16 (makeU32 a b c d)) = b"
  by (rule bit_word_eqI) (auto simp: makeU32_def bit_simps dest: bit_imp_le_length)

lemma makeU32_byte2: "ucast (drop_bit 8 (makeU32 a b c d)) = c"
  by (rule bit_word_eqI) (auto simp: makeU32_def bit_simps dest: bit_imp_le_length)

lemma makeU32_byte3: "ucast (makeU32 a b c d) = d"
  by (rule bit_word_eqI) (auto simp: makeU32_def bit_simps dest: bit_imp_le_length)

lemma unat_push_bit_u32:
  assumes "unat x * 2 ^ n < 2 ^ 32"
  shows "unat (push_bit n (x :: u32)) = unat x * 2 ^ n"
proof -
  have "unat (push_bit n x) = take_bit 32 (push_bit n (unat x))"
    by (simp only: unsigned_push_bit_eq) simp
  also have "\<dots> = unat x * 2 ^ n"
    using assms by (simp only: push_bit_eq_mult take_bit_nat_eq_self_iff)
  finally show ?thesis .
qed

lemma unat_makeU31:
  assumes a: "unat a < 2 ^ 8" and b: "unat b < 2 ^ 15" and c: "unat c < 2 ^ 8"
  shows "unat (makeU31 a b c) = unat a * 2 ^ 23 + unat b * 2 ^ 8 + unat c"
proof -
  have ba: "bit a i \<Longrightarrow> i < 8" and bb: "bit b i \<Longrightarrow> i < 15" and bc: "bit c i \<Longrightarrow> i < 8" for i
    using a b c by (auto intro: bit_unat_less_exp)
  have d1: "push_bit 8 b OR c = push_bit 8 b + c"
    by (rule disjunctive_add [symmetric]) (auto simp: bit_simps dest: bb bc)
  have d2: "push_bit 23 a OR (push_bit 8 b OR c) = push_bit 23 a + (push_bit 8 b OR c)"
    by (rule disjunctive_add [symmetric]) (auto simp: bit_simps dest: ba bb bc)
  have "makeU31 a b c = push_bit 23 a + (push_bit 8 b + c)"
    by (simp only: makeU31_def d2) (simp only: d1)
  moreover have "unat a * 2 ^ 23 < 2 ^ 31" using a by simp
  moreover have "unat b * 2 ^ 8 < 2 ^ 23" using b by simp
  ultimately show ?thesis
    using c by (simp add: unat_add_no_wrap unat_push_bit_u32)
qed

text \<open>
  C31: \<open>makeU31\<close> packs a byte, a 15-bit constant and a byte into a 31-bit
  LFSR cell as the specification's concatenation \<open>k \<parallel> d \<parallel> iv\<close>: for
  operands of those widths each field is read back at its place (bits 23..30,
  8..22 and 0..7) and the result is below \<open>2^31\<close>.
\<close>

theorem makeU31_fields:
  assumes "unat a < 256" "unat b < 32768" "unat c < 256"
  shows "drop_bit 23 (makeU31 a b c) = a \<and> drop_bit 8 (makeU31 a b c) AND 0x7fff = b \<and>
         makeU31 a b c AND 0xff = c \<and> unat (makeU31 a b c) < 2 ^ 31"
proof -
  have ba: "bit a i \<Longrightarrow> i < 8" and bb: "bit b i \<Longrightarrow> i < 15" and bc: "bit c i \<Longrightarrow> i < 8" for i
    using assms by (auto intro: bit_unat_less_exp)
  have m1: "(0x7fff :: u32) = mask 15" and m2: "(0xff :: u32) = mask 8"
    by (simp_all add: mask_eq_exp_minus_1)
  have "drop_bit 23 (makeU31 a b c) = a"
    by (rule bit_word_eqI) (auto simp: makeU31_def bit_simps dest: ba bb bc)
  moreover have "drop_bit 8 (makeU31 a b c) AND 0x7fff = b"
    by (rule bit_word_eqI) (auto simp: makeU31_def bit_simps m1 dest: ba bb bc)
  moreover have "makeU31 a b c AND 0xff = c"
    by (rule bit_word_eqI) (auto simp: makeU31_def bit_simps m2 dest: ba bb bc)
  moreover have "unat (makeU31 a b c) < 2 ^ 31"
    using unat_makeU31 assms by simp
  ultimately show ?thesis by blast
qed

theorem makeU31_fields_witness:
  "unat (0xAB :: u32) < 256 \<and> unat (0x44D7 :: u32) < 32768 \<and> unat (0xCD :: u32) < 256 \<and>
   drop_bit 23 (makeU31 0xAB 0x44D7 0xCD) = 0xAB \<and> drop_bit 8 (makeU31 0xAB 0x44D7 0xCD) AND 0x7fff = 0x44D7 \<and>
   makeU31 0xAB 0x44D7 0xCD AND 0xff = 0xCD \<and> unat (makeU31 0xAB 0x44D7 0xCD) < 2 ^ 31"
  using makeU31_fields [of "0xAB" "0x44D7" "0xCD"] by simp

end
