(* ===== verification/ZUC.thy ===== *)
theory ZUC
  imports Common Tables
begin

text \<open>
  The keystream generator of \<open>src/zuc.go\<close>. The Go structs \<open>BRC\<close>, \<open>LFSR\<close>, \<open>F\<close>
  and \<open>ZUC\<close> are records with the source's field names. The handle \<open>ZUC\<close> holds
  pointers to the other three; a nil pointer is \<open>None\<close>. Every method that mutates
  a struct returns the updated value; a method that can panic returns
  \<open>panic + _\<close>. The 32 initialisation rounds are a function recursive on the
  round counter; the keystream loop keeps Go's \<open>uint32\<close> counter. The lemmas
  here are about the LFSR and the bit reorganisation: their refinement to the
  specification and the cell invariant; the handle as a whole is the subject
  of \<open>ZUC_Handle\<close>.
\<close>

unbundle bit_operations_syntax

subsection \<open>State\<close>

record BRC =
  X0 :: u32
  X1 :: u32
  X2 :: u32
  X3 :: u32

record LFSR =
  S0 :: u32
  S1 :: u32
  S2 :: u32
  S3 :: u32
  S4 :: u32
  S5 :: u32
  S6 :: u32
  S7 :: u32
  S8 :: u32
  S9 :: u32
  S10 :: u32
  S11 :: u32
  S12 :: u32
  S13 :: u32
  S14 :: u32
  S15 :: u32

record F =
  R1 :: u32
  R2 :: u32

text \<open>
  The handle. Its Go field \<open>f\<close> is called \<open>f_mem\<close> here, since a constant named
  \<open>f\<close> would capture every variable of that name.
\<close>

record ZUC =
  lfsr :: "LFSR option"
  brc :: "BRC option"
  f_mem :: "F option"
  is_initialized :: bool
  is_first :: bool

text \<open>The zero values of the structs, as \<open>&LFSR{}\<close>, \<open>&BRC{}\<close>, \<open>&F{}\<close>, \<open>&ZUC{}\<close> build them.\<close>

definition LFSR_zero :: LFSR where
  "LFSR_zero = \<lparr>S0 = 0, S1 = 0, S2 = 0, S3 = 0, S4 = 0, S5 = 0, S6 = 0, S7 = 0,
     S8 = 0, S9 = 0, S10 = 0, S11 = 0, S12 = 0, S13 = 0, S14 = 0, S15 = 0\<rparr>"

definition BRC_zero :: BRC where
  "BRC_zero = \<lparr>X0 = 0, X1 = 0, X2 = 0, X3 = 0\<rparr>"

definition F_zero :: F where
  "F_zero = \<lparr>R1 = 0, R2 = 0\<rparr>"

definition ZUC_zero :: ZUC where
  "ZUC_zero = \<lparr>lfsr = None, brc = None, f_mem = None, is_initialized = False, is_first = False\<rparr>"

subsection \<open>The LFSR\<close>

text \<open>
  \<open>(lfsr *LFSR) update(f)\<close>: shift the sixteen cells down by one and store \<open>f\<close> in
  the last. The Go assignments run in order, each reading a cell not yet written,
  so a simultaneous record update is the same.
\<close>

definition update :: "LFSR \<Rightarrow> u32 \<Rightarrow> LFSR" where
  "update l f = l\<lparr>S0 := S1 l, S1 := S2 l, S2 := S3 l, S3 := S4 l, S4 := S5 l, S5 := S6 l,
     S6 := S7 l, S7 := S8 l, S8 := S9 l, S9 := S10 l, S10 := S11 l, S11 := S12 l,
     S12 := S13 l, S13 := S14 l, S14 := S15 l, S15 := f\<rparr>"

definition WithInitialisationMode :: "LFSR \<Rightarrow> u32 \<Rightarrow> LFSR" where
  "WithInitialisationMode l u =
     (let f = S0 l;
          v = mulByPow2 (S0 l) 8; f = addM f v;
          v = mulByPow2 (S4 l) 20; f = addM f v;
          v = mulByPow2 (S10 l) 21; f = addM f v;
          v = mulByPow2 (S13 l) 17; f = addM f v;
          v = mulByPow2 (S15 l) 15; f = addM f v;
          f = addM f u
      in update l f)"

definition WithWorkMode :: "LFSR \<Rightarrow> LFSR" where
  "WithWorkMode l =
     (let f = S0 l;
          v = mulByPow2 (S0 l) 8; f = addM f v;
          v = mulByPow2 (S4 l) 20; f = addM f v;
          v = mulByPow2 (S10 l) 21; f = addM f v;
          v = mulByPow2 (S13 l) 17; f = addM f v;
          v = mulByPow2 (S15 l) 15; f = addM f v
      in update l f)"

subsection \<open>Bit reorganisation and the nonlinear function\<close>

text \<open>\<open>(z *ZUC) bitReorganization()\<close> overwrites all four words of \<open>z.brc\<close> from \<open>z.lfsr\<close>.\<close>

definition bitReorganization :: "LFSR \<Rightarrow> BRC" where
  "bitReorganization l =
     \<lparr>X0 = push_bit 1 (S15 l AND 0x7FFF8000) OR (S14 l AND 0xFFFF),
      X1 = push_bit 16 (S11 l AND 0xFFFF) OR drop_bit 15 (S9 l),
      X2 = push_bit 16 (S7 l AND 0xFFFF) OR drop_bit 15 (S5 l),
      X3 = push_bit 16 (S2 l AND 0xFFFF) OR drop_bit 15 (S0 l)\<rparr>"

text \<open>
  \<open>(z *ZUC) f_()\<close>, here \<open>f_F\<close> (a HOL name cannot end in an underscore): reads \<open>z.brc\<close> and \<open>z.f\<close>, writes \<open>z.f\<close>, returns \<open>w\<close>. The
  S-box indices are \<open>u >> 24\<close> and \<open>(u >> k) & 0xff\<close>, all below 256
  (the \<open>zuc_bounds\<close> facts of the prelude), so the Go array reads never fail.
\<close>

definition f_F :: "BRC \<Rightarrow> F \<Rightarrow> u32 \<times> F" where
  "f_F b r =
     (let w = (X0 b XOR R1 r) + R2 r;
          w1 = R1 r + X1 b;
          w2 = R2 r XOR X2 b;
          u = l1 (push_bit 16 w1 OR drop_bit 16 w2);
          v = l2 (push_bit 16 w2 OR drop_bit 16 w1);
          r1 = makeU32 (S0_tab ! unat (drop_bit 24 u)) (S1_tab ! unat (drop_bit 16 u AND 0xff))
                 (S0_tab ! unat (drop_bit 8 u AND 0xff)) (S1_tab ! unat (u AND 0xff));
          r2 = makeU32 (S0_tab ! unat (drop_bit 24 v)) (S1_tab ! unat (drop_bit 16 v AND 0xff))
                 (S0_tab ! unat (drop_bit 8 v AND 0xff)) (S1_tab ! unat (v AND 0xff))
      in (w, r\<lparr>R1 := r1, R2 := r2\<rparr>))"

subsection \<open>Initialisation\<close>

text \<open>The sixteen cells as \<open>Initialization\<close> loads them: \<open>makeU31(k[i], D[i], iv[i])\<close>.\<close>

definition load_cell :: "u8 list \<Rightarrow> u8 list \<Rightarrow> nat \<Rightarrow> u32" where
  "load_cell k iv i = makeU31 (ucast (k ! i)) (D_tab ! i) (ucast (iv ! i))"

definition load_lfsr :: "LFSR \<Rightarrow> u8 list \<Rightarrow> u8 list \<Rightarrow> LFSR" where
  "load_lfsr l k iv = l\<lparr>S0 := load_cell k iv 0, S1 := load_cell k iv 1, S2 := load_cell k iv 2,
     S3 := load_cell k iv 3, S4 := load_cell k iv 4, S5 := load_cell k iv 5,
     S6 := load_cell k iv 6, S7 := load_cell k iv 7, S8 := load_cell k iv 8,
     S9 := load_cell k iv 9, S10 := load_cell k iv 10, S11 := load_cell k iv 11,
     S12 := load_cell k iv 12, S13 := load_cell k iv 13, S14 := load_cell k iv 14,
     S15 := load_cell k iv 15\<rparr>"

text \<open>
  The loop \<open>for n := 32; n > 0; n -= 1\<close>: the first argument is the counter \<open>n\<close>.
  Each round reorganises the bits, runs \<open>F\<close> and feeds \<open>w >> 1\<close> into the LFSR.
\<close>

fun init_rounds :: "nat \<Rightarrow> LFSR \<Rightarrow> BRC \<Rightarrow> F \<Rightarrow> LFSR \<times> BRC \<times> F" where
  "init_rounds 0 l b r = (l, b, r)"
| "init_rounds (Suc n) l b r =
     (let b = bitReorganization l;
          (w, r) = f_F b r
      in init_rounds n (WithInitialisationMode l (drop_bit 1 w)) b r)"

text \<open>
  The round equation is kept out of the simplifier: it would unfold all 32
  rounds of a symbolic state. Proofs name it where they need it.
\<close>

declare init_rounds.simps(2) [simp del]

text \<open>
  \<open>(z *ZUC) Initialization(k, iv)\<close>. The nil pointers are allocated first, then
  \<open>is_first\<close> is set and the cells are loaded; a key or IV shorter than 16 bytes
  makes \<open>k[i]\<close> or \<open>iv[i]\<close> panic. Bytes beyond the sixteenth are ignored.
\<close>

definition Initialization :: "ZUC \<Rightarrow> u8 list \<Rightarrow> u8 list \<Rightarrow> panic + ZUC" where
  "Initialization z k iv =
     (let l = (case lfsr z of None \<Rightarrow> LFSR_zero | Some l \<Rightarrow> l);
          r = (case f_mem z of None \<Rightarrow> F_zero | Some r \<Rightarrow> r);
          b = (case brc z of None \<Rightarrow> BRC_zero | Some b \<Rightarrow> b)
      in if length k < 16 \<or> length iv < 16 then Inl IndexOutOfRange
         else
           (let l = load_lfsr l k iv;
                r = r\<lparr>R1 := 0, R2 := 0\<rparr>;
                (l, b, r) = init_rounds 32 l b r
            in Inr (z\<lparr>lfsr := Some l, brc := Some b, f_mem := Some r,
                      is_initialized := True, is_first := True\<rparr>)))"

definition NewZUC :: "u8 list \<Rightarrow> u8 list \<Rightarrow> panic + ZUC" where
  "NewZUC k iv = Initialization ZUC_zero k iv"

subsection \<open>Keystream\<close>

text \<open>
  \<open>(z *ZUC) NextKey()\<close>: panics on a handle that was never initialised; on the
  first call after \<open>Initialization\<close> runs one discarded work-mode round; then
  produces \<open>f_() ^ X3\<close> and advances the LFSR in work mode. The methods it calls
  dereference \<open>z.lfsr\<close>, \<open>z.brc\<close> and \<open>z.f\<close>.
\<close>

definition warmup :: "LFSR \<Rightarrow> F \<Rightarrow> LFSR \<times> BRC \<times> F" where
  "warmup l r = (let b = bitReorganization l; (_, r) = f_F b r in (WithWorkMode l, b, r))"

definition NextKey :: "ZUC \<Rightarrow> panic + (u32 \<times> ZUC)" where
  "NextKey z =
     (if \<not> is_initialized z then Inl NotInitialized
      else case (lfsr z, brc z, f_mem z) of
        (Some l, Some b, Some r) \<Rightarrow>
          (let (l, b, r, first) = (if is_first z then (case warmup l r of (l, b, r) \<Rightarrow> (l, b, r, False))
                                   else (l, b, r, is_first z));
               b = bitReorganization l;
               (w, r) = f_F b r;
               k = w XOR X3 b
           in Inr (k, z\<lparr>lfsr := Some (WithWorkMode l), brc := Some b, f_mem := Some r,
                        is_first := first\<rparr>))
      | _ \<Rightarrow> Inl NilDereference)"

text \<open>
  \<open>(z *ZUC) GenerateKeystream(length)\<close>: the loop
  \<open>for i := uint32(0); i < length; i += 1\<close> appending \<open>NextKey()\<close>. The counter
  is a \<open>uint32\<close>; the loop stops because \<open>i + 1\<close> does not wrap while
  \<open>i < length\<close>, so \<open>unat length - unat i\<close> decreases.
\<close>

function gen_loop :: "ZUC \<Rightarrow> u32 \<Rightarrow> u32 \<Rightarrow> u32 list \<Rightarrow> panic + (u32 list \<times> ZUC)" where
  "gen_loop z i len keys =
     (if i < len then
        (case NextKey z of
           Inl e \<Rightarrow> Inl e
         | Inr (k, z') \<Rightarrow> gen_loop z' (i + 1) len (keys @ [k]))
      else Inr (keys, z))"
  by pat_completeness auto
termination
  by (relation "measure (\<lambda>(z, i, len, keys). unat len - unat i)")
    (auto simp: unat_incr_less word_less_nat_alt)

declare gen_loop.simps [simp del]

definition GenerateKeystream :: "ZUC \<Rightarrow> u32 \<Rightarrow> panic + (u32 list \<times> ZUC)" where
  "GenerateKeystream z len = gen_loop z 0 len []"

text \<open>
  The same loop counted by the number of iterations left, the form the proofs
  about the keystream use (\<open>gen_loop_keystream_loop\<close> relates the two).
\<close>

fun keystream_loop :: "nat \<Rightarrow> ZUC \<Rightarrow> u32 list \<Rightarrow> panic + (u32 list \<times> ZUC)" where
  "keystream_loop 0 z keys = Inr (keys, z)"
| "keystream_loop (Suc n) z keys =
     (case NextKey z of
        Inl e \<Rightarrow> Inl e
      | Inr (k, z) \<Rightarrow> keystream_loop n z (keys @ [k]))"

subsection \<open>The LFSR as a list of cells, and its invariant\<close>

text \<open>
  The abstraction of the sixteen named cells to a list, \<open>cells l ! i = Si l\<close>.
  The invariant the code keeps on every cell: a value in \<open>[1, 2^31 - 1]\<close>,
  the residue \<open>0\<close> being stored as \<open>2^31 - 1\<close>.
\<close>

definition cells :: "LFSR \<Rightarrow> u32 list" where
  "cells l = [S0 l, S1 l, S2 l, S3 l, S4 l, S5 l, S6 l, S7 l,
              S8 l, S9 l, S10 l, S11 l, S12 l, S13 l, S14 l, S15 l]"

definition cell_ok :: "u32 \<Rightarrow> bool" where
  "cell_ok c \<longleftrightarrow> 1 \<le> unat c \<and> unat c \<le> p31"

definition LFSR_ok :: "LFSR \<Rightarrow> bool" where
  "LFSR_ok l \<longleftrightarrow> list_all cell_ok (cells l)"

text \<open>The linear recurrence of the ZUC specification over the residues.\<close>

definition feedback_spec :: "nat list \<Rightarrow> nat" where
  "feedback_spec s = 2 ^ 15 * s ! 15 + 2 ^ 17 * s ! 13 + 2 ^ 21 * s ! 10 + 2 ^ 20 * s ! 4
     + (1 + 2 ^ 8) * s ! 0"

subsection \<open>The specification side: bit halves\<close>

text \<open>
  The ZUC specification writes the bit reorganisation with the high half
  \<open>s\<^sub>H\<close> (bits 30..15) and the low half \<open>s\<^sub>L\<close> (bits 15..0) of a cell:
  \<open>X0 = s15\<^sub>H \<parallel> s14\<^sub>L\<close>, \<open>X1 = s11\<^sub>L \<parallel> s9\<^sub>H\<close>,
  \<open>X2 = s7\<^sub>L \<parallel> s5\<^sub>H\<close>, \<open>X3 = s2\<^sub>L \<parallel> s0\<^sub>H\<close>.
\<close>

definition hi16 :: "u32 \<Rightarrow> u32" where
  "hi16 s = take_bit 16 (drop_bit 15 s)"

definition lo16 :: "u32 \<Rightarrow> u32" where
  "lo16 s = take_bit 16 s"

definition cat16 :: "u32 \<Rightarrow> u32 \<Rightarrow> u32" where
  "cat16 a b = push_bit 16 a OR b"

definition BR_spec :: "LFSR \<Rightarrow> BRC" where
  "BR_spec l =
     \<lparr>X0 = cat16 (hi16 (S15 l)) (lo16 (S14 l)), X1 = cat16 (lo16 (S11 l)) (hi16 (S9 l)),
      X2 = cat16 (lo16 (S7 l)) (hi16 (S5 l)), X3 = cat16 (lo16 (S2 l)) (hi16 (S0 l))\<rparr>"

lemma length_cells [simp]: "length (cells l) = 16"
  by (simp add: cells_def)

lemma cells_update: "cells (update l f) = tl (cells l) @ [f]"
  by (simp add: cells_def update_def)

lemma LFSR_ok_cells:
  "LFSR_ok l \<longleftrightarrow> cell_ok (S0 l) \<and> cell_ok (S1 l) \<and> cell_ok (S2 l) \<and> cell_ok (S3 l) \<and>
     cell_ok (S4 l) \<and> cell_ok (S5 l) \<and> cell_ok (S6 l) \<and> cell_ok (S7 l) \<and>
     cell_ok (S8 l) \<and> cell_ok (S9 l) \<and> cell_ok (S10 l) \<and> cell_ok (S11 l) \<and>
     cell_ok (S12 l) \<and> cell_ok (S13 l) \<and> cell_ok (S14 l) \<and> cell_ok (S15 l)"
  by (simp add: LFSR_ok_def cells_def)

text \<open>The value both modes compute before the input \<open>u\<close> is added.\<close>

lemma WithWorkMode_eq:
  "WithWorkMode l = update l (addM (addM (addM (addM (addM (S0 l) (mulByPow2 (S0 l) 8))
     (mulByPow2 (S4 l) 20)) (mulByPow2 (S10 l) 21)) (mulByPow2 (S13 l) 17)) (mulByPow2 (S15 l) 15))"
  by (simp add: WithWorkMode_def Let_def)

lemma WithInitialisationMode_eq:
  "WithInitialisationMode l u = update l (addM (addM (addM (addM (addM (addM (S0 l) (mulByPow2 (S0 l) 8))
     (mulByPow2 (S4 l) 20)) (mulByPow2 (S10 l) 21)) (mulByPow2 (S13 l) 17)) (mulByPow2 (S15 l) 15)) u)"
  by (simp add: WithInitialisationMode_def Let_def)

lemma feedback_m31:
  assumes "LFSR_ok l"
  shows "unat (addM (addM (addM (addM (addM (S0 l) (mulByPow2 (S0 l) 8))
     (mulByPow2 (S4 l) 20)) (mulByPow2 (S10 l) 21)) (mulByPow2 (S13 l) 17)) (mulByPow2 (S15 l) 15))
   = m31_norm (feedback_spec (map unat (cells l)))"
  using assms
  by (clarsimp simp: LFSR_ok_cells cell_ok_def addM_mulByPow2_m31)
    (simp add: feedback_spec_def cells_def algebra_simps)

lemma cell_ok_m31_norm [simp]: "unat c = m31_norm t \<Longrightarrow> cell_ok c"
  using m31_norm_range [of t] by (simp add: cell_ok_def)

lemma LFSR_ok_update: "LFSR_ok l \<Longrightarrow> cell_ok f \<Longrightarrow> LFSR_ok (update l f)"
  unfolding LFSR_ok_def cells_update by (cases "cells l") auto

text \<open>
  C1: On a well-formed LFSR, one step of \<open>WithWorkMode\<close> shifts the register
  and appends the linear recurrence of the ZUC specification,
  \<open>2^15 s15 + 2^17 s13 + 2^21 s10 + 2^20 s4 + (1 + 2^8) s0 mod (2^31 - 1)\<close>,
  with the residue \<open>0\<close> written as \<open>2^31 - 1\<close>.
\<close>

lemma WithWorkMode_refines:
  assumes "LFSR_ok l"
  shows "map unat (cells (WithWorkMode l)) =
           tl (map unat (cells l)) @ [m31_norm (feedback_spec (map unat (cells l)))]"
  using assms by (simp add: WithWorkMode_eq cells_update feedback_m31 map_tl)

lemma feedback_input_m31:
  assumes "LFSR_ok l" and "unat u \<le> p31"
  shows "unat (addM (addM (addM (addM (addM (addM (S0 l) (mulByPow2 (S0 l) 8))
     (mulByPow2 (S4 l) 20)) (mulByPow2 (S10 l) 21)) (mulByPow2 (S13 l) 17)) (mulByPow2 (S15 l) 15)) u)
   = m31_norm (feedback_spec (map unat (cells l)) + unat u)"
proof -
  let ?f = "addM (addM (addM (addM (addM (S0 l) (mulByPow2 (S0 l) 8))
     (mulByPow2 (S4 l) 20)) (mulByPow2 (S10 l) 21)) (mulByPow2 (S13 l) 17)) (mulByPow2 (S15 l) 15)"
  have f: "unat ?f = m31_norm (feedback_spec (map unat (cells l)))"
    using assms(1) by (rule feedback_m31)
  have "unat (addM ?f u) = m31_norm (unat ?f + unat u)"
    using assms(2) m31_norm_range by (intro addM_m31) (simp_all add: f trans_le_add1)
  then show ?thesis by (simp add: f)
qed

text \<open>
  C2: On a well-formed LFSR and an input \<open>u \<le> 2^31 - 1\<close>, one step of
  \<open>WithInitialisationMode\<close> shifts the register and appends the recurrence plus
  \<open>u\<close>, modulo \<open>2^31 - 1\<close>.
\<close>

lemma WithInitialisationMode_refines:
  assumes "LFSR_ok l" and "unat u \<le> p31"
  shows "map unat (cells (WithInitialisationMode l u)) =
           tl (map unat (cells l)) @ [m31_norm (feedback_spec (map unat (cells l)) + unat u)]"
  using assms by (simp add: WithInitialisationMode_eq cells_update map_tl feedback_input_m31)

lemma LFSR_ok_WithWorkMode: "LFSR_ok l \<Longrightarrow> LFSR_ok (WithWorkMode l)"
  unfolding WithWorkMode_eq by (rule LFSR_ok_update) (simp_all add: feedback_m31)

lemma LFSR_ok_WithInitialisationMode:
  "LFSR_ok l \<Longrightarrow> unat u \<le> p31 \<Longrightarrow> LFSR_ok (WithInitialisationMode l u)"
  unfolding WithInitialisationMode_eq by (rule LFSR_ok_update) (simp_all add: feedback_input_m31)

subsection \<open>Initialisation keeps the invariant\<close>

lemma D_tab_bounds:
  assumes "i < 16"
  shows "1 \<le> unat (D_tab ! i)" "unat (D_tab ! i) < 32768"
proof -
  have "list_all (\<lambda>d. 1 \<le> unat d \<and> unat d < 32768) D_tab"
    by (simp add: D_tab_def)
  with assms show "1 \<le> unat (D_tab ! i)" "unat (D_tab ! i) < 32768"
    by (simp_all add: list_all_length)
qed

lemma unat_load_cell:
  assumes "i < 16"
  shows "unat (load_cell k iv i) =
           unat (k ! i) * 2 ^ 23 + unat (D_tab ! i) * 2 ^ 8 + unat (iv ! i)"
  unfolding load_cell_def
  by (subst unat_makeU31) (simp_all add: D_tab_bounds [OF assms])

lemma load_cell_ok:
  assumes i: "i < 16"
  shows "cell_ok (load_cell k iv i)"
proof -
  have k: "unat (k ! i) * 2 ^ 23 \<le> 2139095040" using unat_u8_le [of "k ! i"] by simp
  have v: "unat (iv ! i) \<le> 255" by simp
  have d1: "256 \<le> unat (D_tab ! i) * 2 ^ 8" using D_tab_bounds(1) [OF i] by simp
  have d2: "unat (D_tab ! i) * 2 ^ 8 \<le> 8388352" using D_tab_bounds(2) [OF i] by simp
  have p: "p31 = 2147483647" by simp
  show ?thesis
    unfolding cell_ok_def unat_load_cell [OF i] p using k v d1 d2 by linarith
qed

lemma LFSR_ok_load_lfsr: "LFSR_ok (load_lfsr l k iv)"
  by (simp add: LFSR_ok_cells load_lfsr_def load_cell_ok)

lemma WithWorkMode_refines_witness:
  "LFSR_ok (load_lfsr LFSR_zero (replicate 16 0) (replicate 16 0)) \<and>
   map unat (cells (WithWorkMode (load_lfsr LFSR_zero (replicate 16 0) (replicate 16 0)))) =
     tl (map unat (cells (load_lfsr LFSR_zero (replicate 16 0) (replicate 16 0)))) @
     [m31_norm (feedback_spec (map unat (cells (load_lfsr LFSR_zero (replicate 16 0) (replicate 16 0)))))]"
  using WithWorkMode_refines [OF LFSR_ok_load_lfsr] LFSR_ok_load_lfsr by blast

lemma WithInitialisationMode_refines_witness:
  "LFSR_ok (load_lfsr LFSR_zero (replicate 16 0) (replicate 16 0)) \<and> unat (0 :: u32) \<le> p31 \<and>
   map unat (cells (WithInitialisationMode (load_lfsr LFSR_zero (replicate 16 0) (replicate 16 0)) 0)) =
     tl (map unat (cells (load_lfsr LFSR_zero (replicate 16 0) (replicate 16 0)))) @
     [m31_norm (feedback_spec (map unat (cells (load_lfsr LFSR_zero (replicate 16 0) (replicate 16 0)))) + unat (0 :: u32))]"
  using WithInitialisationMode_refines [OF LFSR_ok_load_lfsr, of 0] LFSR_ok_load_lfsr by simp

lemma unat_drop_bit_1_le: "unat (drop_bit 1 (w :: u32)) \<le> p31"
proof -
  have "unat w < 4294967296" by (rule unat_u32_bound)
  then show ?thesis by (simp del: unat_u32_bound add: unat_drop_bit_u32)
qed

lemma LFSR_ok_init_rounds:
  "LFSR_ok l \<Longrightarrow> init_rounds n l b r = (l', b', r') \<Longrightarrow> LFSR_ok l'"
proof (induction n l b r rule: init_rounds.induct)
  case (1 l b r)
  then show ?case by simp
next
  case (2 n l b r)
  obtain w r1 where f: "f_F (bitReorganization l) r = (w, r1)" by fastforce
  have "LFSR_ok (WithInitialisationMode l (drop_bit 1 w))"
    using "2.prems"(1) unat_drop_bit_1_le by (rule LFSR_ok_WithInitialisationMode)
  moreover have "init_rounds n (WithInitialisationMode l (drop_bit 1 w)) (bitReorganization l) r1 = (l', b', r')"
    using "2.prems"(2) f by (simp add: init_rounds.simps(2))
  ultimately show ?case
    using "2.IH" [OF refl f [symmetric]] by blast
qed

subsection \<open>Bit reorganisation against the specification\<close>

lemma low_half_eq: "s AND 0xFFFF = lo16 (s :: u32)"
proof -
  have "(0xFFFF :: u32) = mask 16" by (simp add: mask_eq_exp_minus_1)
  then show ?thesis by (simp add: lo16_def take_bit_eq_mask)
qed

lemma high_half_shift_eq: "push_bit 1 (s AND 0x7FFF8000) = push_bit 16 (hi16 (s :: u32))"
proof -
  have m: "(0x7FFF8000 :: u32) = push_bit 15 (mask 16)" by (simp add: mask_eq_exp_minus_1)
  show ?thesis
    unfolding m hi16_def
    by (rule bit_word_eqI) (auto simp: bit_simps simp del: push_bit_Suc)
qed

lemma high_half_eq:
  assumes "cell_ok s"
  shows "drop_bit 15 s = hi16 s"
proof -
  have "unat s < 2 ^ 31" using assms by (simp add: cell_ok_def)
  then have hi: "bit s i \<Longrightarrow> i < 31" for i by (rule bit_unat_less_exp)
  show ?thesis
    by (intro bit_word_eqI) (auto simp: hi16_def bit_simps dest: hi)
qed

text \<open>
  C3: On a well-formed LFSR, \<open>bitReorganization\<close> computes the four words of the
  specification, each the concatenation of two 16-bit halves of cells.
\<close>

lemma bitReorganization_spec:
  assumes "LFSR_ok l"
  shows "bitReorganization l = BR_spec l"
proof -
  have c: "cell_ok (S9 l)" "cell_ok (S5 l)" "cell_ok (S0 l)"
    using assms by (simp_all add: LFSR_ok_cells)
  show ?thesis
    by (simp only: bitReorganization_def BR_spec_def cat16_def low_half_eq high_half_shift_eq
        high_half_eq [OF c(1)] high_half_eq [OF c(2)] high_half_eq [OF c(3)])
qed

lemma bitReorganization_spec_witness:
  "LFSR_ok (load_lfsr LFSR_zero (replicate 16 0) (replicate 16 0)) \<and>
   bitReorganization (load_lfsr LFSR_zero (replicate 16 0) (replicate 16 0)) = BR_spec (load_lfsr LFSR_zero (replicate 16 0) (replicate 16 0))"
  using bitReorganization_spec [OF LFSR_ok_load_lfsr] LFSR_ok_load_lfsr by blast

end
