(* ===== verification/ZUC_Handle.thy ===== *)
theory ZUC_Handle
  imports ZUC
begin

text \<open>
  The generator handle of \<open>src/zuc.go\<close> as a whole: the invariant an
  initialised handle keeps (\<open>ZUC_inv\<close>), the handles a client can reach through
  \<open>Initialization\<close> and \<open>NextKey\<close> (\<open>zuc_reachable\<close>), the errors and progress
  of \<open>NextKey\<close>, and the keystream loop of \<open>GenerateKeystream\<close>: its iteration
  count, its composition and its preservation of the invariant.
\<close>

unbundle bit_operations_syntax

subsection \<open>Handle invariant and reachable handles\<close>

text \<open>
  An initialised handle has all three structs allocated and a well-formed LFSR.
  A handle that was never initialised may have nil pointers; \<open>NextKey\<close> stops on
  it before dereferencing them.
\<close>

definition ZUC_inv :: "ZUC \<Rightarrow> bool" where
  "ZUC_inv z \<longleftrightarrow>
     (is_initialized z \<longrightarrow>
        (case (lfsr z, brc z, f_mem z) of (Some l, Some _, Some _) \<Rightarrow> LFSR_ok l | _ \<Rightarrow> False))"

text \<open>
  The handles a client can hold: the zero value \<open>ZUC{}\<close>, and whatever
  \<open>Initialization\<close> and \<open>NextKey\<close> return from a reachable handle (\<open>NewZUC\<close> is
  \<open>Initialization\<close> of the zero value, \<open>GenerateKeystream\<close> a sequence of
  \<open>NextKey\<close> calls).
\<close>

inductive zuc_reachable :: "ZUC \<Rightarrow> bool" where
  zero: "zuc_reachable ZUC_zero"
| initialize: "zuc_reachable z \<Longrightarrow> Initialization z k iv = Inr z' \<Longrightarrow> zuc_reachable z'"
| next_key: "zuc_reachable z \<Longrightarrow> NextKey z = Inr (w, z') \<Longrightarrow> zuc_reachable z'"

subsection \<open>The handle: invariant, errors, progress\<close>

lemma ZUC_inv_zero: "ZUC_inv ZUC_zero"
  by (simp add: ZUC_inv_def ZUC_zero_def)

lemma Initialization_short:
  "length k < 16 \<or> length iv < 16 \<Longrightarrow> Initialization z k iv = Inl IndexOutOfRange"
  by (simp add: Initialization_def Let_def)

lemma init_rounds_32_brc: "init_rounds 32 l b r = init_rounds 32 l b' r"
proof -
  have "(32::nat) = Suc 31" by simp
  then show ?thesis by (simp only: init_rounds.simps(2) Let_def)
qed

lemma Initialization_ok:
  assumes "16 \<le> length k" "16 \<le> length iv"
  shows "Initialization z k iv =
           (case init_rounds 32 (load_lfsr LFSR_zero k iv) BRC_zero F_zero of (l, b, r) \<Rightarrow>
              Inr (z\<lparr>lfsr := Some l, brc := Some b, f_mem := Some r,
                     is_initialized := True, is_first := True\<rparr>))"
proof -
  let ?b = "case brc z of None \<Rightarrow> BRC_zero | Some b \<Rightarrow> b"
  have ll: "load_lfsr (case lfsr z of None \<Rightarrow> LFSR_zero | Some l \<Rightarrow> l) k iv = load_lfsr LFSR_zero k iv"
    by (simp add: load_lfsr_def LFSR_zero_def)
  have rr: "(case f_mem z of None \<Rightarrow> F_zero | Some r \<Rightarrow> r)\<lparr>R1 := 0, R2 := 0\<rparr> = F_zero"
    by (simp add: F_zero_def)
  have "Initialization z k iv =
           (case init_rounds 32 (load_lfsr LFSR_zero k iv) ?b F_zero of (l, b, r) \<Rightarrow>
              Inr (z\<lparr>lfsr := Some l, brc := Some b, f_mem := Some r,
                     is_initialized := True, is_first := True\<rparr>))"
    using assms by (simp add: Initialization_def Let_def ll rr)
  also have "init_rounds 32 (load_lfsr LFSR_zero k iv) ?b F_zero
           = init_rounds 32 (load_lfsr LFSR_zero k iv) BRC_zero F_zero"
    by (rule init_rounds_32_brc)
  finally show ?thesis .
qed

lemma ZUC_inv_Initialization:
  assumes "Initialization z k iv = Inr z'"
  shows "ZUC_inv z' \<and> is_initialized z' \<and> is_first z'"
proof -
  have len: "16 \<le> length k" "16 \<le> length iv"
  proof (rule_tac [!] ccontr)
    assume "\<not> 16 \<le> length k"
    then have "Initialization z k iv = Inl IndexOutOfRange" by (intro Initialization_short) simp
    with assms show False by simp
  next
    assume "\<not> 16 \<le> length iv"
    then have "Initialization z k iv = Inl IndexOutOfRange" by (intro Initialization_short) simp
    with assms show False by simp
  qed
  obtain l b r where lbr: "init_rounds 32 (load_lfsr LFSR_zero k iv) BRC_zero F_zero = (l, b, r)"
    by (cases "init_rounds 32 (load_lfsr LFSR_zero k iv) BRC_zero F_zero") auto
  have "LFSR_ok l"
    using LFSR_ok_load_lfsr lbr by (rule LFSR_ok_init_rounds)
  with assms show ?thesis
    by (auto simp: Initialization_ok [OF len] lbr ZUC_inv_def)
qed

lemma NextKey_not_initialized: "\<not> is_initialized z \<Longrightarrow> NextKey z = Inl NotInitialized"
  by (simp add: NextKey_def)

lemma NextKey_allocated:
  assumes "is_initialized z" "lfsr z = Some l" "brc z = Some b0" "f_mem z = Some r0"
  shows "NextKey z =
    (let (l, r) = (if is_first z then (WithWorkMode l, snd (f_F (bitReorganization l) r0)) else (l, r0));
         b = bitReorganization l;
         (w, r) = f_F b r
     in Inr (w XOR X3 b, z\<lparr>lfsr := Some (WithWorkMode l), brc := Some b, f_mem := Some r,
                           is_first := False\<rparr>))"
  using assms by (simp add: NextKey_def warmup_def Let_def split_def)

lemma NextKey_inv:
  assumes "ZUC_inv z" "NextKey z = Inr (k, z')"
  shows "ZUC_inv z' \<and> is_initialized z' \<and> \<not> is_first z'"
proof -
  have init: "is_initialized z"
    using assms(2) by (cases "is_initialized z") (simp_all add: NextKey_not_initialized)
  then obtain l b0 r0 where p: "lfsr z = Some l" "brc z = Some b0" "f_mem z = Some r0" "LFSR_ok l"
    using assms(1) by (auto simp: ZUC_inv_def split: option.splits)
  have "LFSR_ok (WithWorkMode l)" "LFSR_ok (WithWorkMode (WithWorkMode l))"
    using p(4) by (simp_all add: LFSR_ok_WithWorkMode)
  with assms(2) init show ?thesis
    by (auto simp: NextKey_allocated [OF init p(1-3)] ZUC_inv_def Let_def split_def split: if_splits)
qed

lemma NextKey_progress:
  assumes "ZUC_inv z" "is_initialized z"
  shows "\<exists>k z'. NextKey z = Inr (k, z')"
proof -
  obtain l b0 r0 where p: "lfsr z = Some l" "brc z = Some b0" "f_mem z = Some r0"
    using assms by (auto simp: ZUC_inv_def split: option.splits)
  show ?thesis
    by (simp add: NextKey_allocated [OF assms(2) p] Let_def split_def)
qed


subsection \<open>Reachable handles\<close>

lemma zuc_reachable_ZUC_inv: "zuc_reachable z \<Longrightarrow> ZUC_inv z"
proof (induction rule: zuc_reachable.induct)
  case zero
  show ?case by (rule ZUC_inv_zero)
next
  case (initialize z k iv z')
  then show ?case by (blast dest: ZUC_inv_Initialization)
next
  case (next_key z w z')
  then show ?case by (blast dest: NextKey_inv)
qed

lemma NewZUC_reachable: "NewZUC k iv = Inr z \<Longrightarrow> zuc_reachable z"
  unfolding NewZUC_def by (rule zuc_reachable.initialize [OF zuc_reachable.zero])

lemma NewZUC_Inr: "16 \<le> length k \<Longrightarrow> 16 \<le> length iv \<Longrightarrow> \<exists>z. NewZUC k iv = Inr z"
proof -
  assume "16 \<le> length k" "16 \<le> length iv"
  then show ?thesis
    by (cases "init_rounds 32 (load_lfsr LFSR_zero k iv) BRC_zero F_zero")
      (simp add: NewZUC_def Initialization_ok)
qed


subsection \<open>The keystream loop\<close>

lemma gen_loop_keystream_loop:
  "i \<le> len \<Longrightarrow> gen_loop z i len ks = keystream_loop (unat len - unat i) z ks"
proof (induction z i len ks rule: gen_loop.induct)
  case (1 z i len ks)
  show ?case
  proof (cases "i < len")
    case True
    have d: "unat len - unat i = Suc (unat len - unat (i + 1))"
      using True unat_incr_less [OF True] by (simp add: word_less_nat_alt)
    have le: "i + 1 \<le> len"
      using True by (simp add: inc_le)
    show ?thesis
    proof (cases "NextKey z")
      case (Inl e)
      then show ?thesis
        using True d by (subst gen_loop.simps) simp
    next
      case (Inr p)
      obtain k z' where p: "p = (k, z')"
        by fastforce
      have "gen_loop z' (i + 1) len (ks @ [k]) = keystream_loop (unat len - unat (i + 1)) z' (ks @ [k])"
        using "1.IH" [OF True Inr p [symmetric] le] .
      then show ?thesis
        using True d Inr p by (subst gen_loop.simps) simp
    qed
  next
    case False
    with "1.prems" have "i = len"
      by simp
    then show ?thesis
      by (subst gen_loop.simps) simp
  qed
qed

lemma GenerateKeystream_eq: "GenerateKeystream z len = keystream_loop (unat len) z []"
  using gen_loop_keystream_loop [of 0 len z "[]"] by (simp add: GenerateKeystream_def)


lemma keystream_loop_acc:
  "keystream_loop n z ks =
     (case keystream_loop n z [] of Inl e \<Rightarrow> Inl e | Inr (ks', z') \<Rightarrow> Inr (ks @ ks', z'))"
proof (induction n arbitrary: z ks)
  case 0
  then show ?case by simp
next
  case (Suc n)
  show ?case
  proof (cases "NextKey z")
    case (Inl e)
    then show ?thesis by simp
  next
    case (Inr p)
    obtain k z1 where p: "p = (k, z1)" by fastforce
    show ?thesis
      using Inr p Suc.IH [of z1 "ks @ [k]"] Suc.IH [of z1 "[k]"]
      by (simp split: sum.split prod.split)
  qed
qed

lemma keystream_loop_add:
  "keystream_loop (m + n) z ks =
     (case keystream_loop m z ks of Inl e \<Rightarrow> Inl e | Inr (ks', z') \<Rightarrow> keystream_loop n z' ks')"
  by (induction m arbitrary: z ks) (simp_all split: sum.split prod.split)

lemma keystream_loop_length:
  "keystream_loop n z ks = Inr (ks', z') \<Longrightarrow> length ks' = length ks + n"
  by (induction n arbitrary: z ks) (auto split: sum.splits prod.splits)

lemma keystream_loop_progress:
  "ZUC_inv z \<Longrightarrow> is_initialized z \<Longrightarrow>
     \<exists>ks' z'. keystream_loop n z ks = Inr (ks', z') \<and> ZUC_inv z'"
proof (induction n arbitrary: z ks)
  case 0
  then show ?case by simp
next
  case (Suc n)
  obtain k z1 where nk: "NextKey z = Inr (k, z1)"
    using NextKey_progress [OF Suc.prems] by blast
  with Suc.prems have "ZUC_inv z1" "is_initialized z1"
    using NextKey_inv by blast+
  then show ?case using Suc.IH nk by simp
qed

lemma keystream_loop_reachable:
  "zuc_reachable z \<Longrightarrow> keystream_loop n z ks = Inr (ks', z') \<Longrightarrow> zuc_reachable z'"
proof (induction n arbitrary: z ks)
  case 0
  then show ?case by simp
next
  case (Suc n)
  then show ?case
    by (auto split: sum.splits intro: zuc_reachable.next_key)
qed


lemma keystream_loop_inv:
  "ZUC_inv z \<Longrightarrow> is_initialized z \<Longrightarrow> keystream_loop n z ks = Inr (ks', z') \<Longrightarrow>
     ZUC_inv z' \<and> is_initialized z'"
proof (induction n arbitrary: z ks)
  case 0
  then show ?case by simp
next
  case (Suc n)
  then obtain k z1 where "NextKey z = Inr (k, z1)" "keystream_loop n z1 (ks @ [k]) = Inr (ks', z')"
    by (auto split: sum.splits)
  with Suc show ?case
    using NextKey_inv by blast
qed

lemma GenerateKeystream_progress:
  assumes "ZUC_inv z" "is_initialized z"
  shows "\<exists>ks z'. GenerateKeystream z len = Inr (ks, z') \<and> length ks = unat len \<and>
                 ZUC_inv z' \<and> is_initialized z'"
proof -
  obtain ks z' where "keystream_loop (unat len) z [] = Inr (ks, z')"
    using keystream_loop_progress [OF assms] by blast
  then show ?thesis
    using keystream_loop_length keystream_loop_inv [OF assms] by (fastforce simp: GenerateKeystream_eq)
qed

lemma NewZUC_ready:
  "16 \<le> length k \<Longrightarrow> 16 \<le> length iv \<Longrightarrow>
     NewZUC k iv = Inr (projr (NewZUC k iv)) \<and> ZUC_inv (projr (NewZUC k iv)) \<and>
     is_initialized (projr (NewZUC k iv))"
  using NewZUC_Inr [of k iv] ZUC_inv_Initialization [of ZUC_zero k iv] by (auto simp: NewZUC_def)


lemma GenerateKeystream_concat:
  assumes "GenerateKeystream z a = Inr (ks1, z1)" "GenerateKeystream z1 b = Inr (ks2, z2)"
  shows "keystream_loop (unat a + unat b) z [] = Inr (ks1 @ ks2, z2)"
  using assms keystream_loop_acc [of "unat b" z1 ks1]
  by (simp add: GenerateKeystream_eq keystream_loop_add)

subsection \<open>Properties of the generator\<close>

text \<open>
  C4: Every handle reachable from the zero value by \<open>Initialization\<close> and
  \<open>NextKey\<close> satisfies the handle invariant (once initialised, all three structs
  are allocated and every LFSR cell lies in \<open>[1, 2^31 - 1]\<close>), and \<open>NextKey\<close>
  on it never dereferences nil: it panics with \<open>NotInitialized\<close> on a handle
  never initialised, and otherwise returns a key and a handle that is again
  reachable.
\<close>

theorem zuc_reachable_inv:
  assumes "zuc_reachable z"
  shows "ZUC_inv z \<and>
         (if is_initialized z then \<exists>k z'. NextKey z = Inr (k, z') \<and> zuc_reachable z'
          else NextKey z = Inl NotInitialized)"
proof -
  have inv: "ZUC_inv z"
    using assms by (rule zuc_reachable_ZUC_inv)
  moreover have "\<exists>k z'. NextKey z = Inr (k, z') \<and> zuc_reachable z'" if "is_initialized z"
    using NextKey_progress [OF inv that] zuc_reachable.next_key [OF assms] by blast
  ultimately show ?thesis
    by (simp add: NextKey_not_initialized)
qed

theorem zuc_reachable_inv_witness:
  "zuc_reachable (projr (NewZUC (replicate 16 0) (replicate 16 0))) \<and> ZUC_inv (projr (NewZUC (replicate 16 0) (replicate 16 0))) \<and>
   (\<exists>k z'. NextKey (projr (NewZUC (replicate 16 0) (replicate 16 0))) = Inr (k, z') \<and> zuc_reachable z')"
proof -
  have r: "zuc_reachable (projr (NewZUC (replicate 16 0) (replicate 16 0)))" "is_initialized (projr (NewZUC (replicate 16 0) (replicate 16 0)))"
    using NewZUC_ready [of "replicate 16 0" "replicate 16 0"] NewZUC_reachable by auto
  show ?thesis
    using zuc_reachable_inv [OF r(1)] r by simp
qed

text \<open>
  C7: The \<open>uint32\<close> counter loop of \<open>GenerateKeystream\<close>, started at \<open>i\<close>, stops
  after exactly \<open>length - i\<close> calls of \<open>NextKey\<close> (or at the first panic): the
  increment \<open>i + 1\<close> never wraps, and a start at or beyond the bound returns
  at once.
\<close>

theorem gen_loop_iterations: "gen_loop z i len ks = keystream_loop (unat len - unat i) z ks"
proof (cases "i \<le> len")
  case True
  then show ?thesis by (rule gen_loop_keystream_loop)
next
  case False
  then have "\<not> i < len" "unat len - unat i = 0"
    by (simp_all add: word_le_nat_alt word_less_nat_alt)
  then show ?thesis
    by (subst gen_loop.simps) simp
qed

text \<open>
  C26: Re-initialising a handle, in whatever state it is, gives exactly the
  handle \<open>NewZUC\<close> builds from the same key and IV: no state of an earlier use
  survives.
\<close>

theorem Initialization_rekey: "Initialization z k iv = NewZUC k iv"
proof (cases "length k < 16 \<or> length iv < 16")
  case True
  then show ?thesis
    by (simp add: NewZUC_def Initialization_short)
next
  case False
  then show ?thesis
    by (cases z, cases "init_rounds 32 (load_lfsr LFSR_zero k iv) BRC_zero F_zero")
      (simp add: NewZUC_def Initialization_ok ZUC_zero_def)
qed

text \<open>
  C27: When the two lengths do not overflow \<open>uint32\<close>, drawing \<open>a + b\<close> keystream
  words is drawing \<open>a\<close> words and then \<open>b\<close> more from the handle the first
  call returns, errors included.
\<close>

theorem GenerateKeystream_split:
  assumes "unat a + unat b < 4294967296"
  shows "GenerateKeystream z (a + b) =
           (case GenerateKeystream z a of
              Inl e \<Rightarrow> Inl e
            | Inr (ks1, z1) \<Rightarrow>
                (case GenerateKeystream z1 b of
                   Inl e \<Rightarrow> Inl e
                 | Inr (ks2, z2) \<Rightarrow> Inr (ks1 @ ks2, z2)))"
proof -
  have "unat (a + b) = unat a + unat b"
    using assms by (simp add: unat_add_no_wrap)
  then show ?thesis
    by (auto simp: GenerateKeystream_eq keystream_loop_add split: sum.split
        intro: trans [OF keystream_loop_acc])
qed

theorem GenerateKeystream_split_witness:
  "unat (1 :: u32) + unat (2 :: u32) < 4294967296 \<and>
   GenerateKeystream (projr (NewZUC (replicate 16 0) (replicate 16 0))) (1 + 2) =
     (case GenerateKeystream (projr (NewZUC (replicate 16 0) (replicate 16 0))) 1 of
        Inl e \<Rightarrow> Inl e
      | Inr (ks1, z1) \<Rightarrow>
          (case GenerateKeystream z1 2 of
             Inl e \<Rightarrow> Inl e
           | Inr (ks2, z2) \<Rightarrow> Inr (ks1 @ ks2, z2)))"
  using GenerateKeystream_split [of 1 2 "projr (NewZUC (replicate 16 0) (replicate 16 0))"] by simp

end
