(* ===== verification/EEA3.thy ===== *)
theory EEA3
  imports ZUC_Handle
begin

text \<open>
  The confidentiality transform 128-EEA3 of \<open>src/eea3/eea3.go\<close>. \<open>NewEEA3\<close> builds
  the 16-byte IV from the count, bearer and direction and initialises a ZUC
  handle; \<open>Encrypt\<close> draws \<open>\<lceil>blength/32\<rceil>\<close> keystream words from that handle and
  XORs them into the message, byte by byte, most significant byte of each word
  first, then masks the last partial byte and zeroes the tail. The handle is
  advanced by every call, so the transform is returned with the new handle.
  Go's \<open>copy\<close> and \<open>binary.BigEndian.PutUint32\<close> are modelled by
  \<open>copy_slice\<close> and \<open>put_uint32_be\<close> of the prelude.
\<close>

unbundle bit_operations_syntax

subsection \<open>The transform\<close>

record EEA3 =
  eea3_zuc :: ZUC

definition eea3_iv :: "u32 \<Rightarrow> u32 \<Rightarrow> KeyDirection \<Rightarrow> u8 list" where
  "eea3_iv count bearer direction =
     (let iv = replicate 16 0;
          iv = copy_slice iv 0 4 (put_uint32_be count);
          iv = iv[4 := ucast (push_bit 3 bearer OR (push_bit 2 (direction AND 1) AND 0xfc))];
          iv = copy_slice iv 8 12 (take 4 iv);
          iv = copy_slice iv 12 16 (take 4 (drop 4 iv))
      in iv)"

definition NewEEA3 :: "u8 list \<Rightarrow> u32 \<Rightarrow> u32 \<Rightarrow> KeyDirection \<Rightarrow> panic + EEA3" where
  "NewEEA3 ck count bearer direction =
     (case NewZUC ck (eea3_iv count bearer direction) of
        Inl e \<Rightarrow> Inl e
      | Inr z \<Rightarrow> Inr \<lparr>eea3_zuc = z\<rparr>)"

text \<open>The key byte \<open>uint8((ks[i] >> (8*(3-j))) & 0xff)\<close>.\<close>

definition key_byte :: "u32 \<Rightarrow> nat \<Rightarrow> u8" where
  "key_byte k j = ucast (drop_bit (8 * (3 - j)) k AND 0xff)"

text \<open>
  The inner loop \<open>for j := 0; j < 4 && i*4+j < int(length); j++\<close>, writing
  \<open>output[4*i+j] = m[4*i+j] ^ key byte\<close>; both reads and the write are bounds
  checked.
\<close>

function enc_bytes :: "u8 list \<Rightarrow> u8 list \<Rightarrow> u32 \<Rightarrow> nat \<Rightarrow> nat \<Rightarrow> nat \<Rightarrow> panic + u8 list" where
  "enc_bytes m out k i j len =
     (if j < 4 \<and> i * 4 + j < len then
        (if 4 * i + j < length m \<and> 4 * i + j < length out
         then enc_bytes m (out[4 * i + j := m ! (4 * i + j) XOR key_byte k j]) k i (Suc j) len
         else Inl IndexOutOfRange)
      else Inr out)"
  by pat_completeness auto
termination
  by (relation "measure (\<lambda>(m, out, k, i, j, len). 4 - j)") auto

declare enc_bytes.simps [simp del]

text \<open>The outer loop \<open>for i := 0; i < int(keylength); i++\<close> over the keystream words.\<close>

fun enc_words :: "u8 list \<Rightarrow> u8 list \<Rightarrow> u32 list \<Rightarrow> nat \<Rightarrow> nat \<Rightarrow> panic + u8 list" where
  "enc_words m out [] i len = Inr out"
| "enc_words m out (k # ks) i len =
     (case enc_bytes m out k i 0 len of
        Inl e \<Rightarrow> Inl e
      | Inr out \<Rightarrow> enc_words m out ks (Suc i) len)"

text \<open>\<open>for j := int(length); j < len(output); j++ { output[j] = 0 }\<close>.\<close>

function zero_from :: "u8 list \<Rightarrow> nat \<Rightarrow> u8 list" where
  "zero_from out j = (if j < length out then zero_from (out[j := 0]) (Suc j) else out)"
  by pat_completeness auto
termination
  by (relation "measure (\<lambda>(out, j). length out - j)") auto

declare zero_from.simps [simp del]

text \<open>
  \<open>(e *EEA3) Encrypt(m, blength)\<close>. The arithmetic on \<open>blength\<close> is \<open>uint32\<close>: the
  sum \<open>blength + 31\<close> wraps for \<open>blength \<ge> 2^32 - 31\<close>. The masking of the last
  byte reads and writes \<open>output[length-1]\<close>.
\<close>

definition Encrypt :: "EEA3 \<Rightarrow> u8 list \<Rightarrow> u32 \<Rightarrow> panic + (u8 list \<times> EEA3)" where
  "Encrypt e m blength =
     (let zeroBits = blength AND 7;
          keylength = (blength + 31) div 32;
          len = drop_bit 3 blength;
          len = (if 0 < zeroBits then len + 1 else len)
      in case GenerateKeystream (eea3_zuc e) keylength of
           Inl err \<Rightarrow> Inl err
         | Inr (ks, z) \<Rightarrow>
             (case enc_words m (replicate (length m) 0) ks 0 (unat len) of
                Inl err \<Rightarrow> Inl err
              | Inr output \<Rightarrow>
                  (let masked =
                     (if 0 < zeroBits then
                        (if unat len - 1 < length output
                         then Inr (output[unat len - 1 :=
                                output ! (unat len - 1) AND push_bit (unat (8 - zeroBits)) 0xff])
                         else Inl IndexOutOfRange)
                      else Inr output)
                   in case masked of
                        Inl err \<Rightarrow> Inl err
                      | Inr output \<Rightarrow> Inr (zero_from output (unat len), e\<lparr>eea3_zuc := z\<rparr>))))"

definition Decrypt :: "EEA3 \<Rightarrow> u8 list \<Rightarrow> u32 \<Rightarrow> panic + (u8 list \<times> EEA3)" where
  "Decrypt e m blength = Encrypt e m blength"

subsection \<open>The specification of the transform\<close>

text \<open>
  The 128-EEA3 specification on bytes: the output has the length of the input;
  its first \<open>\<lceil>n/8\<rceil>\<close> bytes are the message XOR the keystream bytes (the bytes of
  the keystream words, most significant first), the last of them masked to the
  \<open>n mod 8\<close> leading bits when \<open>n\<close> is not a multiple of 8; the rest is zero.
\<close>

definition nbytes :: "u32 \<Rightarrow> nat" where
  "nbytes n = (unat n + 7) div 8"

definition nwords :: "u32 \<Rightarrow> nat" where
  "nwords n = (unat n + 31) div 32"

definition ks_byte :: "u32 list \<Rightarrow> nat \<Rightarrow> u8" where
  "ks_byte ks p = put_uint32_be (ks ! (p div 4)) ! (p mod 4)"

definition byte_mask :: "u32 \<Rightarrow> nat \<Rightarrow> u8" where
  "byte_mask n p =
     (if p + 1 = nbytes n \<and> unat n mod 8 \<noteq> 0 then push_bit (8 - unat n mod 8) 0xff else 0xff)"

definition eea3_clear :: "u8 list \<Rightarrow> u32 \<Rightarrow> u8 list" where
  "eea3_clear m n = map (\<lambda>p. if p < nbytes n then m ! p AND byte_mask n p else 0) [0..<length m]"

definition eea3_xor :: "u32 list \<Rightarrow> u8 list \<Rightarrow> u32 \<Rightarrow> u8 list" where
  "eea3_xor ks m n =
     map (\<lambda>p. if p < nbytes n then (m ! p XOR ks_byte ks p) AND byte_mask n p else 0) [0..<length m]"

subsection \<open>The byte loops\<close>

lemma enc_bytes_Inr:
  assumes "len \<le> length m" "length out = length m"
  shows "enc_bytes m out k i j len =
    Inr (map (\<lambda>p. if 4 * i + j \<le> p \<and> p < 4 * i + 4 \<and> p < len
                  then m ! p XOR key_byte k (p - 4 * i) else out ! p) [0..<length out])"
  using assms
proof (induction m out k i j len rule: enc_bytes.induct)
  case (1 m out k i j len)
  show ?case
  proof (cases "j < 4 \<and> i * 4 + j < len")
    case True
    then have lt: "4 * i + j < length m" "4 * i + j < length out"
      using "1.prems" by simp_all
    have "enc_bytes m out k i j len =
            enc_bytes m (out[4 * i + j := m ! (4 * i + j) XOR key_byte k j]) k i (Suc j) len"
      using True lt by (subst enc_bytes.simps) simp
    also have "\<dots> = Inr (map (\<lambda>p. if 4 * i + Suc j \<le> p \<and> p < 4 * i + 4 \<and> p < len
                  then m ! p XOR key_byte k (p - 4 * i)
                  else (out[4 * i + j := m ! (4 * i + j) XOR key_byte k j]) ! p) [0..<length out])"
      using "1.IH" [OF True] lt "1.prems" by simp
    also have "\<dots> = Inr (map (\<lambda>p. if 4 * i + j \<le> p \<and> p < 4 * i + 4 \<and> p < len
                  then m ! p XOR key_byte k (p - 4 * i) else out ! p) [0..<length out])"
      using True by (auto simp: nth_list_update intro!: map_cong dest: le_antisym)
    finally show ?thesis .
  next
    case False
    then have "enc_bytes m out k i j len = Inr out"
      by (subst enc_bytes.simps) auto
    moreover have "map (\<lambda>p. if 4 * i + j \<le> p \<and> p < 4 * i + 4 \<and> p < len
                  then m ! p XOR key_byte k (p - 4 * i) else out ! p) [0..<length out] = out"
      using False by (intro nth_equalityI) auto
    ultimately show ?thesis by simp
  qed
qed


lemma enc_bytes_Inl: "enc_bytes m out k i j len = Inl e \<Longrightarrow> e = IndexOutOfRange"
proof (induction m out k i j len rule: enc_bytes.induct)
  case (1 m out k i j len)
  then show ?case
    by (subst (asm) enc_bytes.simps) (auto split: if_splits)
qed

lemma enc_words_Inr:
  assumes "len \<le> length m" "length out = length m"
  shows "enc_words m out ks i len =
    Inr (map (\<lambda>p. if 4 * i \<le> p \<and> p < 4 * (i + length ks) \<and> p < len
                  then m ! p XOR key_byte (ks ! (p div 4 - i)) (p mod 4) else out ! p)
             [0..<length out])"
  using assms
proof (induction ks arbitrary: out i)
  case Nil
  then show ?case by simp (intro nth_equalityI, auto)
next
  case (Cons k ks)
  let ?out1 = "map (\<lambda>p. if 4 * i \<le> p \<and> p < 4 * i + 4 \<and> p < len
                  then m ! p XOR key_byte k (p - 4 * i) else out ! p) [0..<length out]"
  have "enc_words m out (k # ks) i len = enc_words m ?out1 ks (Suc i) len"
    using enc_bytes_Inr [OF Cons.prems, of k i 0] by simp
  also have "\<dots> = Inr (map (\<lambda>p. if 4 * Suc i \<le> p \<and> p < 4 * (Suc i + length ks) \<and> p < len
                  then m ! p XOR key_byte (ks ! (p div 4 - Suc i)) (p mod 4) else ?out1 ! p)
             [0..<length ?out1])"
    using Cons.IH [of ?out1 "Suc i"] Cons.prems by simp
  also have "\<dots> = Inr (map (\<lambda>p. if 4 * i \<le> p \<and> p < 4 * (i + length (k # ks)) \<and> p < len
                  then m ! p XOR key_byte ((k # ks) ! (p div 4 - i)) (p mod 4) else out ! p)
             [0..<length out])"
  proof -
    have "p div 4 - i = Suc (p div 4 - Suc i)" if "4 * Suc i \<le> p" for p
      using that by presburger
    moreover have "p div 4 - i = 0" "p - 4 * i = p mod 4" if "4 * i \<le> p" "p < 4 * i + 4" for p
      using that by presburger+
    ultimately show ?thesis
      by (auto intro!: map_cong)
  qed
  finally show ?case .
qed

lemma enc_words_Inl: "enc_words m out ks i len = Inl e \<Longrightarrow> e = IndexOutOfRange"
  by (induction ks arbitrary: out i) (auto split: sum.splits dest: enc_bytes_Inl)

lemma zero_from_eq: "zero_from out j = take j out @ replicate (length out - j) 0"
proof (induction out j rule: zero_from.induct)
  case (1 out j)
  show ?case
  proof (cases "j < length out")
    case True
    then have "zero_from out j = take (Suc j) (out[j := 0]) @ replicate (length out - Suc j) 0"
      using "1.IH" by (subst zero_from.simps) simp
    also have "\<dots> = take j out @ replicate (length out - j) 0"
    proof -
      have "length out - j = Suc (length out - Suc j)"
        using True by simp
      then show ?thesis
        using True by (simp add: take_Suc_conv_app_nth)
    qed
    finally show ?thesis .
  next
    case False
    then show ?thesis by (subst zero_from.simps) simp
  qed
qed


lemma ucast_and_0xff: "(ucast ((x :: u32) AND 0xff) :: u8) = ucast x"
proof -
  have "(0xff :: u32) = mask 8"
    by (simp add: mask_eq_exp_minus_1)
  then have "x AND 0xff = take_bit 8 x"
    by (simp add: take_bit_eq_mask)
  then show ?thesis
    by (simp add: bit_word_eqI bit_simps)
qed

lemma key_byte_be:
  assumes "j < 4"
  shows "key_byte k j = put_uint32_be k ! j"
proof -
  have "j = 0 \<or> j = 1 \<or> j = 2 \<or> j = 3"
    using assms by linarith
  then show ?thesis
    by (elim disjE) (simp_all add: key_byte_def put_uint32_be_def ucast_and_0xff)
qed

lemma enc_words_zero:
  assumes "nbytes n \<le> length m" "nbytes n \<le> 4 * length ks"
  shows "enc_words m (replicate (length m) 0) ks 0 (nbytes n) =
           Inr (map (\<lambda>p. if p < nbytes n then m ! p XOR ks_byte ks p else 0) [0..<length m])"
  using enc_words_Inr [of "nbytes n" m "replicate (length m) 0" ks 0] assms
  by (auto simp: ks_byte_def key_byte_be intro!: map_cong)

subsection \<open>Lengths in bits and bytes\<close>

lemma unat_and_7: "unat ((n :: u32) AND 7) = unat n mod 8"
proof -
  have "(7 :: u32) = mask 3" by (simp add: mask_eq_exp_minus_1)
  then have "n AND 7 = take_bit 3 n" by (simp add: take_bit_eq_mask)
  then show ?thesis by (simp only: unsigned_take_bit_eq take_bit_eq_mod [where 'a = nat]) simp
qed

lemma zero_bits_pos: "0 < (n :: u32) AND 7 \<longleftrightarrow> unat n mod 8 \<noteq> 0"
  using unat_and_7 [of n] by (simp add: word_less_nat_alt)

lemma unat_byte_length:
  "unat (if 0 < (n :: u32) AND 7 then drop_bit 3 n + 1 else drop_bit 3 n) = nbytes n"
proof -
  have d: "unat (drop_bit 3 n) = unat n div 8"
    by (simp add: unat_drop_bit_u32)
  have b: "unat n < 4294967296"
    by (rule unat_u32_bound)
  have "unat n div 8 < 536870912"
    using b by (subst div_less_iff_less_mult) simp_all
  then have "unat n div 8 + 1 < 2 ^ 32"
    by simp
  then have "unat (drop_bit 3 n + 1) = unat n div 8 + 1"
    by (simp add: unat_add_no_wrap d)
  moreover note zero_bits_pos [of n]
  moreover have "(unat n + 7) div 8 = (if unat n mod 8 = 0 then unat n div 8 else unat n div 8 + 1)"
    by presburger
  ultimately show ?thesis
    by (auto simp: nbytes_def d)
qed

lemma unat_word_length:
  assumes "unat (n :: u32) \<le> 4294967264"
  shows "unat ((n + 31) div 32) = nwords n"
proof -
  have "unat (n + 31) = unat n + 31"
    using assms by (simp add: unat_add_no_wrap)
  then show ?thesis
    by (simp add: unat_div nwords_def)
qed

lemma nbytes_le_words: "nbytes n \<le> 4 * nwords n"
  unfolding nbytes_def nwords_def by linarith

lemma unat_mask_shift: "unat (8 - ((n :: u32) AND 7)) = 8 - unat n mod 8"
proof -
  have "unat (n AND 7) \<le> 8"
    using unat_and_7 [of n] by simp
  then show ?thesis
    by (simp add: unat_sub word_le_nat_alt unat_and_7)
qed


subsection \<open>\<open>Encrypt\<close> against the specification\<close>

lemma u8_and_255: "(x :: u8) AND 255 = x"
proof -
  have "(255 :: u8) = mask LENGTH(8)"
    by (simp add: mask_eq_exp_minus_1)
  then show ?thesis
    by (metis take_bit_eq_mask take_bit_length_eq)
qed

lemma zero_from_beyond:
  "\<forall>p < length out. n \<le> p \<longrightarrow> out ! p = 0 \<Longrightarrow> zero_from out n = out"
  by (simp add: zero_from_eq) (intro nth_equalityI, auto simp: nth_append)

lemma Encrypt_unfold:
  assumes "GenerateKeystream (eea3_zuc e) ((n + 31) div 32) = Inr (ks, z)"
    and "enc_words m (replicate (length m) 0) ks 0 (nbytes n) = Inr out"
  shows "Encrypt e m n =
    (if 0 < n AND 7 then
       (if nbytes n - 1 < length out
        then Inr (zero_from (out[nbytes n - 1 := out ! (nbytes n - 1) AND
                   push_bit (8 - unat n mod 8) 0xff]) (nbytes n), e\<lparr>eea3_zuc := z\<rparr>)
        else Inl IndexOutOfRange)
     else Inr (zero_from out (nbytes n), e\<lparr>eea3_zuc := z\<rparr>))"
proof -
  note l = unat_byte_length [of n]
  show ?thesis
    unfolding Encrypt_def Let_def l using assms by (simp add: unat_mask_shift)
qed

lemma Encrypt_spec:
  assumes nw: "unat n \<le> 4294967264" and len: "nbytes n \<le> length m"
    and ks: "GenerateKeystream (eea3_zuc e) ((n + 31) div 32) = Inr (ks, z)"
  shows "Encrypt e m n = Inr (eea3_xor ks m n, e\<lparr>eea3_zuc := z\<rparr>)"
proof -
  have "length ks = nwords n"
    using ks keystream_loop_length unat_word_length [OF nw] by (simp add: GenerateKeystream_eq)
  then have ew: "enc_words m (replicate (length m) 0) ks 0 (nbytes n) =
      Inr (map (\<lambda>p. if p < nbytes n then m ! p XOR ks_byte ks p else 0) [0..<length m])"
    using enc_words_zero [OF len] nbytes_le_words [of n] by simp
  note zb = zero_bits_pos [of n]
  show ?thesis
  proof (cases "unat n mod 8 = 0")
    case True
    then show ?thesis
      using Encrypt_unfold [OF ks ew] zb
      by (simp add: zero_from_beyond eea3_xor_def byte_mask_def u8_and_255)
  next
    case False
    then have "0 < nbytes n"
      by (simp add: nbytes_def)
    moreover from this len have "nbytes n - Suc 0 < length m"
      by linarith
    ultimately show ?thesis
      using Encrypt_unfold [OF ks ew] zb False len
      by (simp add: zero_from_eq eea3_xor_def byte_mask_def)
        (intro nth_equalityI, auto simp: nth_append nth_list_update u8_and_255 byte_mask_def)
  qed
qed


lemma enc_bytes_reads:
  "enc_bytes m out k i j len = Inr out' \<Longrightarrow> 4 * i + j \<le> p \<Longrightarrow> p < 4 * i + 4 \<Longrightarrow> p < len \<Longrightarrow>
     p < length m"
proof (induction m out k i j len arbitrary: out' rule: enc_bytes.induct)
  case (1 m out k i j len)
  show ?case
  proof (cases "j < 4 \<and> i * 4 + j < len \<and> 4 * i + j < length m \<and> 4 * i + j < length out")
    case True
    then show ?thesis
      using "1.prems" "1.IH" [of out'] by (cases "p = 4 * i + j") (auto simp: enc_bytes.simps [of m out])
  next
    case False
    then show ?thesis
      using "1.prems" by (subst (asm) enc_bytes.simps) (auto split: if_splits)
  qed
qed

lemma enc_words_reads:
  "enc_words m out ks i len = Inr out' \<Longrightarrow> 4 * i \<le> p \<Longrightarrow> p < 4 * (i + length ks) \<Longrightarrow>
     p < len \<Longrightarrow> p < length m"
proof (induction ks arbitrary: out i)
  case Nil
  then show ?case by simp
next
  case (Cons k ks)
  then obtain out1 where o1: "enc_bytes m out k i 0 len = Inr out1"
    "enc_words m out1 ks (Suc i) len = Inr out'"
    by (auto split: sum.splits)
  show ?case
  proof (cases "p < 4 * i + 4")
    case True
    then show ?thesis using enc_bytes_reads [OF o1(1)] Cons.prems by simp
  next
    case False
    then show ?thesis using Cons.IH [OF o1(2)] Cons.prems by simp
  qed
qed

lemma mask_xor_mask: "((x AND M) XOR y) AND M = (x XOR y) AND (M :: 'a::len word)"
  by (rule bit_word_eqI) (auto simp: bit_and_iff bit_xor_iff)

lemma xor_cancel_right: "(x XOR y) XOR y = (x :: 'a::len word)"
  by (rule bit_word_eqI) (auto simp: bit_xor_iff)

lemma eea3_xor_xor: "eea3_xor ks (eea3_xor ks m n) n = eea3_clear m n"
  by (simp add: eea3_xor_def eea3_clear_def mask_xor_mask xor_cancel_right)


lemma eea3_clear_whole: "unat n = 8 * length m \<Longrightarrow> eea3_clear m n = m"
  by (simp add: eea3_clear_def nbytes_def) (intro nth_equalityI, auto simp: byte_mask_def u8_and_255)

lemma length_eea3_xor [simp]: "length (eea3_xor ks m n) = length m"
  by (simp add: eea3_xor_def)

lemma nbytes_wrap: "4294967265 \<le> unat (n :: u32) \<Longrightarrow> (n + 31) div 32 = 0"
proof -
  assume a: "4294967265 \<le> unat n"
  have b: "unat n < 4294967296"
    by (rule unat_u32_bound)
  have "unat (n + 31) = unat n + 31 - 4294967296"
    using unat_add_wrap_u32 [of n 31] a by simp
  with b have "unat (n + 31) < 32"
    by linarith
  then show ?thesis
    by (simp add: unat_div unat_eq_zero [symmetric])
qed

lemma replicate_update_same: "(replicate k x)[j := x] = replicate k x"
  by (induction k arbitrary: j) (auto split: nat.split)

lemma Encrypt_enc_error:
  assumes "GenerateKeystream (eea3_zuc e) ((n + 31) div 32) = Inr (ks, z)"
    and "enc_words m (replicate (length m) 0) ks 0 (nbytes n) = Inl err"
  shows "Encrypt e m n = Inl err"
proof -
  note l = unat_byte_length [of n]
  show ?thesis
    unfolding Encrypt_def Let_def l using assms by simp
qed

lemma Encrypt_Decrypt_ks:
  assumes "unat n \<le> 4294967264" "nbytes n \<le> length m"
    and "GenerateKeystream (eea3_zuc e) ((n + 31) div 32) = Inr (ks, z)"
  shows "Encrypt e m n = Inr (eea3_xor ks m n, e\<lparr>eea3_zuc := z\<rparr>) \<and>
         Decrypt e (eea3_xor ks m n) n = Inr (eea3_clear m n, e\<lparr>eea3_zuc := z\<rparr>)"
proof -
  have "nbytes n \<le> length (eea3_xor ks m n)"
    using assms(2) by simp
  then show ?thesis
    using Encrypt_spec [OF assms(1) _ assms(3)] assms(2) by (simp add: Decrypt_def eea3_xor_xor)
qed

lemma enc_bytes_length:
  "enc_bytes m out k i j len = Inr out' \<Longrightarrow> length out' = length out"
proof (induction m out k i j len rule: enc_bytes.induct)
  case (1 m out k i j len)
  then show ?case
    by (subst (asm) enc_bytes.simps) (auto split: if_splits)
qed

lemma enc_words_length: "enc_words m out ks i len = Inr out' \<Longrightarrow> length out' = length out"
  by (induction ks arbitrary: out i) (auto split: sum.splits dest: enc_bytes_length)

lemma eea3_xor_prefix:
  assumes "nbytes n \<le> 4 * length ks"
  shows "eea3_xor (ks @ ks') m n = eea3_xor ks m n"
proof -
  have "p div 4 < length ks" if "p < nbytes n" for p
    using that assms by (simp add: div_less_iff_less_mult)
  then show ?thesis
    by (auto simp: eea3_xor_def ks_byte_def nth_append intro!: map_cong)
qed

subsection \<open>Properties of the transform\<close>

text \<open>
  C11: On an initialised handle with the handle invariant, for a bit length
  whose word count does not wrap and a message holding \<open>\<lceil>n/8\<rceil>\<close> bytes,
  \<open>Encrypt\<close> draws \<open>\<lceil>n/32\<rceil>\<close> keystream words and returns the specified
  ciphertext: the message XOR the keystream bytes, the last partial byte
  masked, the tail zeroed.
\<close>

theorem Encrypt_correct:
  assumes "ZUC_inv (eea3_zuc e)" "is_initialized (eea3_zuc e)"
    and "unat n \<le> 4294967264" "nbytes n \<le> length m"
  shows "\<exists>ks z. GenerateKeystream (eea3_zuc e) ((n + 31) div 32) = Inr (ks, z) \<and>
                length ks = nwords n \<and> Encrypt e m n = Inr (eea3_xor ks m n, e\<lparr>eea3_zuc := z\<rparr>)"
proof -
  obtain ks z where "GenerateKeystream (eea3_zuc e) ((n + 31) div 32) = Inr (ks, z)"
    "length ks = unat ((n + 31) div 32)"
    using GenerateKeystream_progress [OF assms(1,2)] by blast
  then show ?thesis
    using Encrypt_spec [OF assms(3,4)] unat_word_length [OF assms(3)] by auto
qed

theorem Encrypt_correct_witness:
  "ZUC_inv (projr (NewZUC (replicate 16 0) (replicate 16 0))) \<and>
   is_initialized (projr (NewZUC (replicate 16 0) (replicate 16 0))) \<and>
   unat (8 :: u32) \<le> 4294967264 \<and> nbytes 8 \<le> length [0 :: u8] \<and>
   (\<exists>ks z. GenerateKeystream (projr (NewZUC (replicate 16 0) (replicate 16 0))) ((8 + 31) div 32) =
             Inr (ks, z) \<and> length ks = nwords 8 \<and>
           Encrypt \<lparr>eea3_zuc = projr (NewZUC (replicate 16 0) (replicate 16 0))\<rparr> [0] 8 =
             Inr (eea3_xor ks [0] 8, \<lparr>eea3_zuc = z\<rparr>))"
  using Encrypt_correct [of "\<lparr>eea3_zuc = projr (NewZUC (replicate 16 0) (replicate 16 0))\<rparr>" 8 "[0]"]
    NewZUC_ready [of "replicate 16 0" "replicate 16 0"]
  by (simp add: nbytes_def)

text \<open>
  C12: On an initialised handle, for a bit length \<open>n \<le> 2^32 - 32\<close> (so that
  \<open>n + 31\<close> does not wrap) and a message of at least \<open>\<lceil>n/8\<rceil>\<close> bytes,
  encrypting with a transform and decrypting the result with a transform in
  the same state gives back the message with every bit at or beyond position
  \<open>n\<close> cleared; both calls leave the handle in the same state. (Beyond that
  bound the round trip returns zero bytes, C15.)
\<close>

theorem Decrypt_Encrypt:
  assumes "ZUC_inv (eea3_zuc e)" "is_initialized (eea3_zuc e)"
    and "unat n \<le> 4294967264" "nbytes n \<le> length m"
  shows "\<exists>c e'. Encrypt e m n = Inr (c, e') \<and> Decrypt e c n = Inr (eea3_clear m n, e')"
proof -
  obtain ks z where "GenerateKeystream (eea3_zuc e) ((n + 31) div 32) = Inr (ks, z)"
    using GenerateKeystream_progress [OF assms(1,2)] by blast
  then show ?thesis
    using Encrypt_Decrypt_ks [OF assms(3,4)] by blast
qed

theorem Decrypt_Encrypt_witness:
  "ZUC_inv (projr (NewZUC (replicate 16 0) (replicate 16 0))) \<and>
   is_initialized (projr (NewZUC (replicate 16 0) (replicate 16 0))) \<and>
   unat (5 :: u32) \<le> 4294967264 \<and> nbytes 5 \<le> length [255 :: u8] \<and>
   (\<exists>c e'. Encrypt \<lparr>eea3_zuc = projr (NewZUC (replicate 16 0) (replicate 16 0))\<rparr> [255] 5 =
             Inr (c, e') \<and>
           Decrypt \<lparr>eea3_zuc = projr (NewZUC (replicate 16 0) (replicate 16 0))\<rparr> c 5 =
             Inr (eea3_clear [255] 5, e'))"
  using Decrypt_Encrypt [of "\<lparr>eea3_zuc = projr (NewZUC (replicate 16 0) (replicate 16 0))\<rparr>" 5 "[255]"]
    NewZUC_ready [of "replicate 16 0" "replicate 16 0"]
  by (simp add: nbytes_def)

text \<open>
  C13: When the bit length is exactly the message's length in bits (and its
  word count does not wrap), decrypting the ciphertext with a transform in the
  same state gives back the message.
\<close>

theorem Decrypt_Encrypt_whole_bytes:
  assumes "ZUC_inv (eea3_zuc e)" "is_initialized (eea3_zuc e)"
    and "unat n \<le> 4294967264" "unat n = 8 * length m"
  shows "\<exists>c e'. Encrypt e m n = Inr (c, e') \<and> Decrypt e c n = Inr (m, e')"
proof -
  obtain ks z where "GenerateKeystream (eea3_zuc e) ((n + 31) div 32) = Inr (ks, z)"
    using GenerateKeystream_progress [OF assms(1,2)] by blast
  moreover have "nbytes n \<le> length m"
    using assms(4) by (simp add: nbytes_def)
  ultimately show ?thesis
    using Encrypt_Decrypt_ks [OF assms(3)] eea3_clear_whole [OF assms(4)] by metis
qed

theorem Decrypt_Encrypt_whole_bytes_witness:
  "ZUC_inv (projr (NewZUC (replicate 16 0) (replicate 16 0))) \<and>
   is_initialized (projr (NewZUC (replicate 16 0) (replicate 16 0))) \<and>
   unat (16 :: u32) \<le> 4294967264 \<and> unat (16 :: u32) = 8 * length [1, 2 :: u8] \<and>
   (\<exists>c e'. Encrypt \<lparr>eea3_zuc = projr (NewZUC (replicate 16 0) (replicate 16 0))\<rparr> [1, 2] 16 =
             Inr (c, e') \<and>
           Decrypt \<lparr>eea3_zuc = projr (NewZUC (replicate 16 0) (replicate 16 0))\<rparr> c 16 =
             Inr ([1, 2], e'))"
  using Decrypt_Encrypt_whole_bytes [of "\<lparr>eea3_zuc = projr (NewZUC (replicate 16 0) (replicate 16 0))\<rparr>"
      16 "[1, 2]"]
    NewZUC_ready [of "replicate 16 0" "replicate 16 0"]
  by simp

text \<open>
  C14: On an initialised handle and for a bit length \<open>n \<le> 2^32 - 32\<close>, a
  message shorter than \<open>\<lceil>n/8\<rceil>\<close> bytes makes \<open>Encrypt\<close> panic with an index
  out of range (the read of \<open>m[4*i+j]\<close>); there is no length check. (For
  larger \<open>n\<close> the keystream loop is skipped, C15.)
\<close>

theorem Encrypt_short_message:
  assumes "ZUC_inv (eea3_zuc e)" "is_initialized (eea3_zuc e)"
    and "unat n \<le> 4294967264" "length m < nbytes n"
  shows "Encrypt e m n = Inl IndexOutOfRange"
proof -
  obtain ks z where ks: "GenerateKeystream (eea3_zuc e) ((n + 31) div 32) = Inr (ks, z)"
    "length ks = unat ((n + 31) div 32)"
    using GenerateKeystream_progress [OF assms(1,2)] by blast
  have "length m < 4 * length ks"
    using assms(4) nbytes_le_words [of n] ks(2) unat_word_length [OF assms(3)] by linarith
  then have "\<not> (\<exists>out. enc_words m (replicate (length m) 0) ks 0 (nbytes n) = Inr out)"
    using enc_words_reads [of m _ ks 0 "nbytes n" _ "length m"] assms(4) by auto
  then obtain err where "enc_words m (replicate (length m) 0) ks 0 (nbytes n) = Inl err"
    by (cases "enc_words m (replicate (length m) 0) ks 0 (nbytes n)") auto
  then show ?thesis
    using Encrypt_enc_error [OF ks(1)] enc_words_Inl by metis
qed

theorem Encrypt_short_message_witness:
  "ZUC_inv (projr (NewZUC (replicate 16 0) (replicate 16 0))) \<and>
   is_initialized (projr (NewZUC (replicate 16 0) (replicate 16 0))) \<and>
   unat (9 :: u32) \<le> 4294967264 \<and> length [7 :: u8] < nbytes 9 \<and>
   Encrypt \<lparr>eea3_zuc = projr (NewZUC (replicate 16 0) (replicate 16 0))\<rparr> [7] 9 = Inl IndexOutOfRange"
  using Encrypt_short_message [of "\<lparr>eea3_zuc = projr (NewZUC (replicate 16 0) (replicate 16 0))\<rparr>" 9 "[7]"]
    NewZUC_ready [of "replicate 16 0" "replicate 16 0"]
  by (simp add: nbytes_def)

text \<open>
  C15: For a bit length of \<open>2^32 - 31\<close> or more the \<open>uint32\<close> sum
  \<open>blength + 31\<close> wraps and no keystream word is drawn, whatever the state of
  the handle (even one never initialised). If the bit length is not a multiple
  of 8 and the message is shorter than \<open>\<lceil>n/8\<rceil>\<close> bytes, the masking write
  \<open>output[length-1]\<close> panics; for every other message \<open>Encrypt\<close> returns all
  zero bytes and leaves the handle unchanged.
\<close>

theorem Encrypt_keylength_wrap:
  assumes "4294967265 \<le> unat n"
  shows "Encrypt e m n =
    (if unat n mod 8 \<noteq> 0 \<and> length m < nbytes n then Inl IndexOutOfRange
     else Inr (replicate (length m) 0, e))"
proof -
  have ks: "GenerateKeystream (eea3_zuc e) ((n + 31) div 32) = Inr ([], eea3_zuc e)"
    using nbytes_wrap [OF assms(1)] by (simp add: GenerateKeystream_eq)
  have ew: "enc_words m (replicate (length m) 0) [] 0 (nbytes n) = Inr (replicate (length m) 0)"
    by simp
  have "0 < nbytes n"
    using assms(1) by (simp add: nbytes_def)
  then have "nbytes n - 1 < length m \<longleftrightarrow> \<not> length m < nbytes n"
    by linarith
  moreover have "min (nbytes n) (length m) + (length m - nbytes n) = length m"
    by (simp add: min_def)
  ultimately show ?thesis
    using Encrypt_unfold [OF ks ew] zero_bits_pos [of n]
    by (simp add: zero_from_eq replicate_update_same replicate_add [symmetric])
qed

theorem Encrypt_keylength_wrap_witness:
  "4294967265 \<le> unat (4294967295 :: u32) \<and>
   Encrypt \<lparr>eea3_zuc = ZUC_zero\<rparr> (replicate 536870912 0) 4294967295 =
     Inr (replicate 536870912 0, \<lparr>eea3_zuc = ZUC_zero\<rparr>) \<and>
   Encrypt \<lparr>eea3_zuc = ZUC_zero\<rparr> [] 4294967295 = Inl IndexOutOfRange"
  using Encrypt_keylength_wrap [of 4294967295 "\<lparr>eea3_zuc = ZUC_zero\<rparr>" "replicate 536870912 0"]
    Encrypt_keylength_wrap [of 4294967295 "\<lparr>eea3_zuc = ZUC_zero\<rparr>" "[]"]
  by (simp add: nbytes_def)

text \<open>
  C16: The IV of \<open>NewEEA3\<close> is the big-endian count, the byte
  \<open>bearer << 3 | direction << 2\<close> and three zero bytes, repeated twice.
\<close>

theorem eea3_iv_layout:
  "eea3_iv count bearer direction =
     (let h = put_uint32_be count @
              [ucast (push_bit 3 bearer OR (push_bit 2 (direction AND 1) AND 0xfc)), 0, 0, 0]
      in h @ h)"
proof -
  have r: "replicate 12 (0 :: u8) = [0, 0, 0, 0, 0, 0, 0, 0, 0, 0, 0, 0]"
    by (simp add: numeral_eq_Suc)
  show ?thesis
    by (simp add: eea3_iv_def copy_slice_def put_uint32_be_def Let_def r)
qed


text \<open>
  C28: Whatever branch it takes, a successful \<open>Encrypt\<close> returns an output of
  the length of the message (the wrap-around branch included).
\<close>

theorem Encrypt_length:
  "Encrypt e m n = Inr (c, e') \<Longrightarrow> length c = length m"
  by (auto simp: Encrypt_def Let_def zero_from_eq split: sum.splits if_splits
      dest!: enc_words_length)

theorem Encrypt_length_witness:
  "Encrypt \<lparr>eea3_zuc = ZUC_zero\<rparr> [5] 0 = Inr ([0], \<lparr>eea3_zuc = ZUC_zero\<rparr>) \<and>
   length [0 :: u8] = length [5 :: u8]"
proof -
  have enc: "Encrypt \<lparr>eea3_zuc = ZUC_zero\<rparr> [5] 0 = Inr ([0], \<lparr>eea3_zuc = ZUC_zero\<rparr>)"
    by (simp add: Encrypt_def GenerateKeystream_eq zero_from.simps)
  show ?thesis
    using Encrypt_length [OF enc] enc by simp
qed

text \<open>
  C29: Two successive calls of \<open>Encrypt\<close> on the same transform object use
  consecutive, disjoint segments of one keystream: the second call XORs with
  the words after the \<open>\<lceil>n\<^sub>1/32\<rceil>\<close> the first one consumed. Keystream is
  never reused, and decrypting with the object that encrypted does not give
  the message back.
\<close>

theorem Encrypt_twice:
  assumes "ZUC_inv (eea3_zuc e)" "is_initialized (eea3_zuc e)"
    and "unat n1 \<le> 4294967264" "nbytes n1 \<le> length m1"
    and "unat n2 \<le> 4294967264" "nbytes n2 \<le> length m2"
  shows "\<exists>ks z e1. keystream_loop (nwords n1 + nwords n2) (eea3_zuc e) [] = Inr (ks, z) \<and>
           Encrypt e m1 n1 = Inr (eea3_xor ks m1 n1, e1) \<and>
           Encrypt e1 m2 n2 = Inr (eea3_xor (drop (nwords n1) ks) m2 n2, e\<lparr>eea3_zuc := z\<rparr>)"
proof -
  obtain ks1 z1 where g1: "GenerateKeystream (eea3_zuc e) ((n1 + 31) div 32) = Inr (ks1, z1)"
    "length ks1 = unat ((n1 + 31) div 32)" "ZUC_inv z1" "is_initialized z1"
    using GenerateKeystream_progress [OF assms(1,2)] by blast
  obtain ks2 z2 where g2: "GenerateKeystream z1 ((n2 + 31) div 32) = Inr (ks2, z2)"
    using GenerateKeystream_progress [OF g1(3,4)] by blast
  have l1: "length ks1 = nwords n1"
    using g1(2) unat_word_length [OF assms(3)] by simp
  have k: "keystream_loop (nwords n1 + nwords n2) (eea3_zuc e) [] = Inr (ks1 @ ks2, z2)"
    using GenerateKeystream_concat [OF g1(1) g2] unat_word_length [OF assms(3)]
      unat_word_length [OF assms(5)] by simp
  have e1: "Encrypt e m1 n1 = Inr (eea3_xor (ks1 @ ks2) m1 n1, e\<lparr>eea3_zuc := z1\<rparr>)"
    using Encrypt_spec [OF assms(3,4) g1(1)] eea3_xor_prefix [of n1 ks1 ks2 m1] l1
      nbytes_le_words [of n1] by simp
  have e2: "Encrypt (e\<lparr>eea3_zuc := z1\<rparr>) m2 n2 =
      Inr (eea3_xor (drop (nwords n1) (ks1 @ ks2)) m2 n2, e\<lparr>eea3_zuc := z2\<rparr>)"
    using Encrypt_spec [OF assms(5,6), of "e\<lparr>eea3_zuc := z1\<rparr>"] g2 l1 by simp
  show ?thesis
    using k e1 e2 by blast
qed

theorem Encrypt_twice_witness:
  "ZUC_inv (projr (NewZUC (replicate 16 0) (replicate 16 0))) \<and> is_initialized (projr (NewZUC (replicate 16 0) (replicate 16 0))) \<and>
   unat (8 :: u32) \<le> 4294967264 \<and> nbytes 8 \<le> length [0 :: u8] \<and>
   (\<exists>ks z e1. keystream_loop (nwords 8 + nwords 8) (projr (NewZUC (replicate 16 0) (replicate 16 0))) [] = Inr (ks, z) \<and>
      Encrypt \<lparr>eea3_zuc = projr (NewZUC (replicate 16 0) (replicate 16 0))\<rparr> [0] 8 = Inr (eea3_xor ks [0] 8, e1) \<and>
      Encrypt e1 [0] 8 = Inr (eea3_xor (drop (nwords 8) ks) [0] 8, \<lparr>eea3_zuc = z\<rparr>))"
  using Encrypt_twice [of "\<lparr>eea3_zuc = projr (NewZUC (replicate 16 0) (replicate 16 0))\<rparr>" 8 "[0]" 8 "[0]"]
    NewZUC_ready [of "replicate 16 0" "replicate 16 0"]
  by (simp add: nbytes_def)

end
