(* ===== verification/EIA3.thy ===== *)
theory EIA3
  imports ZUC_Handle
begin

text \<open>
  The integrity transform 128-EIA3 of \<open>src/eia3/eia3.go\<close>. \<open>NewEIA3\<close> builds the
  16-byte IV from the count, bearer and direction and initialises a ZUC handle;
  \<open>Hash\<close> draws \<open>\<lceil>(blen + 64)/32\<rceil>\<close> keystream words, XORs together the 32-bit
  windows \<open>getZi ks i\<close> of the keystream at every position \<open>i\<close> of a set message
  bit, adds the window at \<open>blen\<close> and the last keystream word, and returns the
  four big-endian bytes; \<open>Verify\<close> recomputes the tag and compares. Both return
  the advanced handle. The specification side defines the keystream as a bit
  string (\<open>ks_bit\<close>), its 32-bit windows (\<open>zword\<close>) and the tag (\<open>eia3_mac\<close>).
\<close>

unbundle bit_operations_syntax

subsection \<open>The transform\<close>

record EIA3 =
  eia3_zuc :: ZUC

text \<open>
  \<open>getZi(ks, i)\<close>: the keystream word at bit offset \<open>i\<close>, spliced from two
  neighbouring words when \<open>i\<close> is not a multiple of 32; the reads are bounds
  checked (\<open>i/32 + 1\<close> is computed in \<open>uint32\<close> and cannot wrap).
\<close>

definition getZi :: "u32 list \<Rightarrow> u32 \<Rightarrow> panic + u32" where
  "getZi ks i =
     (let ti = i mod 32
      in if ti = 0 then slice_get ks (unat (i div 32))
         else (case slice_get ks (unat (i div 32)) of
                 Inl e \<Rightarrow> Inl e
               | Inr a \<Rightarrow>
                   (case slice_get ks (unat (i div 32 + 1)) of
                      Inl e \<Rightarrow> Inl e
                    | Inr b \<Rightarrow> Inr (push_bit (unat ti) a OR drop_bit (unat (32 - ti)) b))))"

definition eia3_iv :: "u32 \<Rightarrow> u32 \<Rightarrow> KeyDirection \<Rightarrow> u8 list" where
  "eia3_iv count bearer direction =
     (let iv = replicate 16 0;
          iv = copy_slice iv 0 4 (put_uint32_be count);
          iv = iv[4 := ucast (push_bit 3 bearer AND 0xf8)];
          iv = copy_slice iv 8 12 (put_uint32_be count);
          iv = iv[8 := iv ! 8 XOR ucast (push_bit 7 (direction AND 1))];
          iv = copy_slice iv 12 16 (take 4 (drop 4 iv));
          iv = iv[14 := iv ! 14 XOR ucast (push_bit 7 (direction AND 1))]
      in iv)"

definition NewEIA3 :: "u8 list \<Rightarrow> u32 \<Rightarrow> u32 \<Rightarrow> KeyDirection \<Rightarrow> panic + EIA3" where
  "NewEIA3 ik count bearer direction =
     (case NewZUC ik (eia3_iv count bearer direction) of
        Inl e \<Rightarrow> Inl e
      | Inr z \<Rightarrow> Inr \<lparr>eia3_zuc = z\<rparr>)"

text \<open>
  The loop \<open>for i := 0; i < int(blen); i++\<close> of \<open>Hash\<close>: when bit \<open>i\<close> of the
  message (most significant bit of each byte first) is set, \<open>t ^= getZi(ks, i)\<close>.
  The second argument counts the iterations left; \<open>m[i/8]\<close> is read on every
  iteration.
\<close>

fun hash_bits :: "u8 list \<Rightarrow> u32 list \<Rightarrow> nat \<Rightarrow> nat \<Rightarrow> u32 \<Rightarrow> panic + u32" where
  "hash_bits m ks i 0 t = Inr t"
| "hash_bits m ks i (Suc k) t =
     (case slice_get m (i div 8) of
        Inl e \<Rightarrow> Inl e
      | Inr b \<Rightarrow>
          if 0 < b AND push_bit (7 - i mod 8) 1 then
            (case getZi ks (of_nat i) of
               Inl e \<Rightarrow> Inl e
             | Inr z \<Rightarrow> hash_bits m ks (Suc i) k (t XOR z))
          else hash_bits m ks (Suc i) k t)"

text \<open>
  \<open>(e *EIA3) Hash(m, blen)\<close>. \<open>n = blen + 64\<close> and \<open>keylength\<close> are \<open>uint32\<close>;
  \<open>ks[keylength-1]\<close> is bounds checked.
\<close>

definition Hash :: "EIA3 \<Rightarrow> u8 list \<Rightarrow> u32 \<Rightarrow> panic + (u8 list \<times> EIA3)" where
  "Hash e m blen =
     (let n = blen + 64;
          keylength = (n + 31) div 32
      in case GenerateKeystream (eia3_zuc e) keylength of
           Inl err \<Rightarrow> Inl err
         | Inr (ks, z) \<Rightarrow>
             (case hash_bits m ks 0 (unat blen) 0 of
                Inl err \<Rightarrow> Inl err
              | Inr t \<Rightarrow>
                  (case getZi ks blen of
                     Inl err \<Rightarrow> Inl err
                   | Inr zl \<Rightarrow>
                       (case slice_get ks (unat (keylength - 1)) of
                          Inl err \<Rightarrow> Inl err
                        | Inr kl \<Rightarrow> Inr (put_uint32_be (t XOR zl XOR kl), e\<lparr>eia3_zuc := z\<rparr>)))))"

text \<open>\<open>(e *EIA3) Verify(m, blen, mac)\<close>: \<open>bytes.Compare(e.Hash(m, blen), mac) == 0\<close>.\<close>

definition Verify :: "EIA3 \<Rightarrow> u8 list \<Rightarrow> u32 \<Rightarrow> u8 list \<Rightarrow> panic + (bool \<times> EIA3)" where
  "Verify e m blen mac =
     (case Hash e m blen of
        Inl err \<Rightarrow> Inl err
      | Inr (chk, e') \<Rightarrow> Inr (chk = mac, e'))"

subsection \<open>The specification of the tag\<close>

text \<open>
  The 128-EIA3 specification reads the keystream as a bit string
  \<open>z\<^sub>0 z\<^sub>1 \<dots>\<close> (most significant bit of each word first) and the message
  as a bit string \<open>M\<^sub>0 M\<^sub>1 \<dots>\<close> (most significant bit of each byte first).
  \<open>z\<^sub>i\<close>-word is \<open>z\<^sub>i \<dots> z\<^sub>i\<^sub>+\<^sub>3\<^sub>1\<close>; the tag of a message of \<open>L\<close> bits is
  \<open>T \<oplus> z\<^sub>3\<^sub>2\<^sub>(\<^sub>K\<^sub>-\<^sub>1\<^sub>)\<close>-word, where \<open>T\<close> is the XOR of the words at the set
  message bits and the word at \<open>L\<close>, and \<open>K = \<lceil>L/32\<rceil> + 2\<close>.
\<close>

definition ks_bit :: "u32 list \<Rightarrow> nat \<Rightarrow> bool" where
  "ks_bit ks j = bit (ks ! (j div 32)) (31 - j mod 32)"

definition msg_bit :: "u8 list \<Rightarrow> nat \<Rightarrow> bool" where
  "msg_bit m i = bit (m ! (i div 8)) (7 - i mod 8)"

definition zword :: "u32 list \<Rightarrow> nat \<Rightarrow> u32" where
  "zword ks j = fold (\<lambda>b w. push_bit 1 w OR (if ks_bit ks (j + b) then 1 else 0)) [0..<32] 0"

definition eia3_T :: "u32 list \<Rightarrow> u8 list \<Rightarrow> nat \<Rightarrow> u32" where
  "eia3_T ks m L = fold (\<lambda>i t. if msg_bit m i then t XOR zword ks i else t) [0..<L] 0"

definition eia3_mac :: "u32 list \<Rightarrow> u8 list \<Rightarrow> nat \<Rightarrow> u8 list" where
  "eia3_mac ks m L = put_uint32_be (eia3_T ks m L XOR zword ks L XOR ks ! ((L + 95) div 32 - 1))"


subsection \<open>The windows of the keystream\<close>

lemma bit_zword_prefix:
  assumes "k \<le> 32" "b < 32"
  shows "bit (fold (\<lambda>b w. push_bit 1 w OR (if ks_bit ks (j + b) then 1 else 0)) [0..<k] (0 :: u32)) b
           \<longleftrightarrow> b < k \<and> ks_bit ks (j + k - 1 - b)"
  using assms
proof (induction k arbitrary: b)
  case 0
  then show ?case by simp
next
  case (Suc k)
  show ?case
  proof (cases b)
    case 0
    then show ?thesis by (simp add: bit_simps del: push_bit_Suc)
  next
    case (Suc b')
    then show ?thesis
      using Suc.IH [of b'] Suc.prems by (auto simp: bit_simps simp del: push_bit_Suc)
  qed
qed

lemma bit_zword: "b < 32 \<Longrightarrow> bit (zword ks j) b \<longleftrightarrow> ks_bit ks (j + 31 - b)"
  using bit_zword_prefix [of 32 b ks j] by (simp add: zword_def add.commute)


lemma window_same:
  fixes u b :: nat
  assumes "u mod 32 \<le> b" "b < 32"
  shows "(u + 31 - b) div 32 = u div 32" "(u + 31 - b) mod 32 = u mod 32 + 31 - b"
proof -
  have e: "u = 32 * (u div 32) + u mod 32" "32 * Suc (u div 32) = 32 * (u div 32) + 32" by simp_all
  show d: "(u + 31 - b) div 32 = u div 32"
    by (rule div_nat_eqI) (use assms e in linarith, use assms e in linarith)
  have "u + 31 - b = 32 * ((u + 31 - b) div 32) + (u + 31 - b) mod 32" by simp
  then show "(u + 31 - b) mod 32 = u mod 32 + 31 - b"
    using d e assms by linarith
qed
lemma window_next:
  fixes u b :: nat
  assumes "b < u mod 32"
  shows "(u + 31 - b) div 32 = Suc (u div 32)" "(u + 31 - b) mod 32 + Suc b = u mod 32"
proof -
  have e: "u = 32 * (u div 32) + u mod 32" "u mod 32 < 32"
    by simp_all
  show d: "(u + 31 - b) div 32 = Suc (u div 32)"
    by (rule div_nat_eqI) (unfold mult_Suc_right, use assms e in linarith, use assms e in linarith)
  have "u + 31 - b = 32 * ((u + 31 - b) div 32) + (u + 31 - b) mod 32" by simp
  then show "(u + 31 - b) mod 32 + Suc b = u mod 32"
    using d e assms by linarith
qed
lemma ks_bit_same_word:
  assumes "u mod 32 \<le> b" "b < 32"
  shows "ks_bit ks (u + 31 - b) = bit (ks ! (u div 32)) (b - u mod 32)"
  using window_same [OF assms] assms by (simp add: ks_bit_def)

lemma ks_bit_next_word:
  assumes "b < u mod 32"
  shows "ks_bit ks (u + 31 - b) = bit (ks ! (u div 32 + 1)) (32 - u mod 32 + b)"
proof -
  have "31 - (u + 31 - b) mod 32 = 32 - u mod 32 + b"
    using window_next (2) [OF assms] by linarith
  then show ?thesis
    using window_next (1) [OF assms] by (simp add: ks_bit_def)
qed

lemma unat_div_32_Suc: "unat ((i :: u32) div 32 + 1) = unat i div 32 + 1"
proof -
  have "unat i div 32 < 134217728"
    using unat_u32_bound [of i] by (subst div_less_iff_less_mult) simp_all
  then show ?thesis
    by (simp add: unat_add_no_wrap unat_div)
qed

lemma getZi_zword:
  assumes "unat i + 31 < 32 * length ks"
  shows "getZi ks i = Inr (zword ks (unat i))"
proof -
  let ?u = "unat i"
  have m: "unat (i mod 32) = ?u mod 32" and d: "unat (i div 32) = ?u div 32"
    by (simp_all add: unat_mod unat_div)
  have z: "i mod 32 = 0 \<longleftrightarrow> ?u mod 32 = 0"
    using m by (metis unat_eq_zero)
  have e: "?u = 32 * (?u div 32) + ?u mod 32"
    by simp
  have lt: "?u div 32 < length ks"
    using assms e by linarith
  show ?thesis
  proof (cases "?u mod 32 = 0")
    case True
    have "ks ! (?u div 32) = zword ks ?u"
    proof (rule bit_word_eqI)
      fix b assume "b < LENGTH(32)"
      then show "bit (ks ! (?u div 32)) b = bit (zword ks ?u) b"
        using ks_bit_same_word [of ?u b ks] True by (simp add: bit_zword)
    qed
    then show ?thesis
      using True z lt by (simp add: getZi_def d)
  next
    case False
    have lt1: "?u div 32 + 1 < length ks"
      using assms False e by linarith
    have s: "unat (32 - i mod 32) = 32 - ?u mod 32"
      using m by (simp add: unat_sub word_le_nat_alt)
    let ?w = "push_bit (?u mod 32) (ks ! (?u div 32)) OR drop_bit (32 - ?u mod 32) (ks ! (?u div 32 + 1))"
    have "?w = zword ks ?u"
    proof (rule bit_word_eqI)
      fix b assume b: "b < LENGTH(32)"
      show "bit ?w b = bit (zword ks ?u) b"
      proof (cases "?u mod 32 \<le> b")
        case True
        then have "\<not> bit (ks ! (?u div 32 + 1)) (32 - ?u mod 32 + b)"
          by (auto dest: bit_imp_le_length)
        with True show ?thesis
          using b ks_bit_same_word [of ?u b ks] by (simp add: bit_zword bit_simps)
      next
        case False
        then show ?thesis
          using b ks_bit_next_word [of b ?u ks] by (simp add: bit_zword bit_simps)
      qed
    qed
    then show ?thesis
      using False z lt lt1 by (simp add: getZi_def d m s unat_div_32_Suc)
  qed
qed


lemma getZi_Inl: "getZi ks i = Inl e \<Longrightarrow> e = IndexOutOfRange"
  by (auto simp: getZi_def Let_def slice_get_def split: if_splits sum.splits)

lemma getZi_beyond: "length ks \<le> unat i div 32 \<Longrightarrow> getZi ks i = Inl IndexOutOfRange"
  by (simp add: getZi_def Let_def unat_div)

subsection \<open>The bit loop of \<open>Hash\<close>\<close>

lemma u8_bit_test: "0 < (x :: u8) AND 2 ^ n \<longleftrightarrow> bit x n"
  by (simp add: word_gt_0 and_exp_eq_0_iff_not_bit)

lemma hash_bits_correct:
  assumes "i + k \<le> 8 * length m" "i + k + 30 < 32 * length ks" "i + k \<le> 4294967296"
  shows "hash_bits m ks i k t =
           Inr (fold (\<lambda>p t. if msg_bit m p then t XOR zword ks p else t) [i..<i + k] t)"
  using assms
proof (induction k arbitrary: i t)
  case 0
  then show ?case by simp
next
  case (Suc k)
  have m: "i div 8 < length m"
    using Suc.prems(1) by linarith
  have "i < 4294967296"
    using Suc.prems(3) by linarith
  then have "unat (of_nat i :: u32) = i"
    by (simp add: unat_of_nat)
  then have z: "getZi ks (of_nat i) = Inr (zword ks i)"
    using getZi_zword [of "of_nat i" ks] Suc.prems(2) by simp
  have eq: "[i..<i + Suc k] = i # [Suc i..<Suc i + k]"
    by (simp add: upt_conv_Cons)
  have "hash_bits m ks i (Suc k) t =
          hash_bits m ks (Suc i) k (if msg_bit m i then t XOR zword ks i else t)"
    using m z by (simp add: u8_bit_test msg_bit_def)
  also have "\<dots> = Inr (fold (\<lambda>p t. if msg_bit m p then t XOR zword ks p else t) [Suc i..<Suc i + k]
                        (if msg_bit m i then t XOR zword ks i else t))"
    by (rule Suc.IH) (use Suc.prems in linarith)+
  also have "\<dots> = Inr (fold (\<lambda>p t. if msg_bit m p then t XOR zword ks p else t) [i..<i + Suc k] t)"
    by (simp only: eq fold_Cons comp_apply)
  finally show ?case .
qed

lemma hash_bits_Inl: "hash_bits m ks i k t = Inl e \<Longrightarrow> e = IndexOutOfRange"
  by (induction k arbitrary: i t)
    (auto simp: slice_get_def split: if_splits sum.splits dest: getZi_Inl)

lemma hash_bits_reads: "hash_bits m ks i k t = Inr r \<Longrightarrow> k = 0 \<or> i + k \<le> 8 * length m"
proof (induction k arbitrary: i t)
  case 0
  then show ?case by simp
next
  case (Suc k)
  then obtain t' where "i div 8 < length m" "hash_bits m ks (Suc i) k t' = Inr r"
    by (auto simp: slice_get_def split: if_splits sum.splits)
  moreover from this(2) have "k = 0 \<or> Suc i + k \<le> 8 * length m"
    by (rule Suc.IH)
  ultimately show ?case
    by linarith
qed


subsection \<open>\<open>Hash\<close> against the specification\<close>

lemma unat_hash_keylength:
  assumes "unat (blen :: u32) \<le> 4294967200"
  shows "unat ((blen + 64 + 31) div 32) = (unat blen + 95) div 32"
proof -
  have "unat (blen + 64 + 31) = unat blen + 95"
    using assms by (simp add: unat_add_no_wrap)
  then show ?thesis
    by (simp add: unat_div)
qed

lemma hash_words_bounds:
  fixes L :: nat
  shows "L + 31 < 32 * ((L + 95) div 32)" "2 \<le> (L + 95) div 32"
proof -
  have "L + 95 = 32 * ((L + 95) div 32) + (L + 95) mod 32" "(L + 95) mod 32 < 32"
    by simp_all
  then show "L + 31 < 32 * ((L + 95) div 32)" "2 \<le> (L + 95) div 32"
    by linarith+
qed

lemma Hash_spec:
  assumes nw: "unat blen \<le> 4294967200" and len: "unat blen \<le> 8 * length m"
    and ks: "GenerateKeystream (eia3_zuc e) ((blen + 64 + 31) div 32) = Inr (ks, z)"
  shows "Hash e m blen = Inr (eia3_mac ks m (unat blen), e\<lparr>eia3_zuc := z\<rparr>)"
proof -
  let ?K = "(unat blen + 95) div 32"
  have lk: "length ks = ?K"
    using ks keystream_loop_length unat_hash_keylength [OF nw] by (simp add: GenerateKeystream_eq)
  note b = hash_words_bounds [of "unat blen"]
  have hb: "hash_bits m ks 0 (unat blen) 0 = Inr (eia3_T ks m (unat blen))"
    using hash_bits_correct [of 0 "unat blen" m ks 0] len lk b nw by (simp add: eia3_T_def)
  have gz: "getZi ks blen = Inr (zword ks (unat blen))"
    using getZi_zword lk b by simp
  have "unat ((blen + 64 + 31) div 32 - 1) = ?K - 1"
    using unat_hash_keylength [OF nw] b(2) by (simp add: unat_sub word_le_nat_alt)
  moreover have "?K - 1 < length ks"
    using lk b(2) by simp
  ultimately show ?thesis
    using ks hb gz by (simp add: Hash_def eia3_mac_def xor.assoc)
qed


lemma hash_keylength_wrap:
  assumes "4294967232 \<le> unat (blen :: u32)"
  shows "unat ((blen + 64 + 31) div 32) \<le> 2"
proof -
  have b: "unat blen < 4294967296"
    by (rule unat_u32_bound)
  have "unat (blen + 64) = unat blen + 64 - 4294967296"
    using unat_add_wrap_u32 [of blen 64] assms by simp
  with b have lt: "unat (blen + 64) < 64"
    by linarith
  have "unat (blen + 64 + 31) = unat (blen + 64) + unat (31 :: u32)"
    by (rule unat_add_no_wrap) (use lt in simp)
  with lt have "unat (blen + 64 + 31) < 95"
    by simp
  then show ?thesis
    by (simp add: unat_div)
qed

subsection \<open>Properties of the transform\<close>

text \<open>
  C17: \<open>getZi ks i\<close> is the 32-bit window of the keystream bit string starting
  at bit \<open>i\<close> (bit \<open>31 - b\<close> of the result is keystream bit \<open>i + b\<close>), whenever
  the window lies within the keystream.
\<close>

theorem getZi_window:
  assumes "unat i + 31 < 32 * length ks"
  shows "\<exists>z. getZi ks i = Inr z \<and> (\<forall>b < 32. bit z b \<longleftrightarrow> ks_bit ks (unat i + 31 - b))"
  using getZi_zword [OF assms] bit_zword by blast

theorem getZi_window_witness:
  "unat (40 :: u32) + 31 < 32 * length [1, 2, 3 :: u32] \<and>
   (\<exists>z. getZi [1, 2, 3] 40 = Inr z \<and> (\<forall>b < 32. bit z b \<longleftrightarrow> ks_bit [1, 2, 3] (unat (40 :: u32) + 31 - b)))"
  using getZi_window [of 40 "[1, 2, 3]"] by simp

text \<open>
  C18: On an initialised handle with the handle invariant, for a bit length
  below \<open>2^32 - 95\<close> and a message holding \<open>blen\<close> bits, \<open>Hash\<close> draws
  \<open>\<lceil>blen/32\<rceil> + 2\<close> keystream words and returns the tag of the 128-EIA3
  specification.
\<close>

theorem Hash_correct:
  assumes "ZUC_inv (eia3_zuc e)" "is_initialized (eia3_zuc e)"
    and "unat blen \<le> 4294967200" "unat blen \<le> 8 * length m"
  shows "\<exists>ks z. GenerateKeystream (eia3_zuc e) ((blen + 64 + 31) div 32) = Inr (ks, z) \<and>
                length ks = (unat blen + 95) div 32 \<and>
                Hash e m blen = Inr (eia3_mac ks m (unat blen), e\<lparr>eia3_zuc := z\<rparr>)"
proof -
  obtain ks z where "GenerateKeystream (eia3_zuc e) ((blen + 64 + 31) div 32) = Inr (ks, z)"
    "length ks = unat ((blen + 64 + 31) div 32)"
    using GenerateKeystream_progress [OF assms(1,2)] by blast
  then show ?thesis
    using Hash_spec [OF assms(3,4)] unat_hash_keylength [OF assms(3)] by auto
qed

theorem Hash_correct_witness:
  "ZUC_inv (projr (NewZUC (replicate 16 0) (replicate 16 0))) \<and> is_initialized (projr (NewZUC (replicate 16 0) (replicate 16 0))) \<and>
   unat (1 :: u32) \<le> 4294967200 \<and> unat (1 :: u32) \<le> 8 * length [0 :: u8] \<and>
   (\<exists>ks z. GenerateKeystream (projr (NewZUC (replicate 16 0) (replicate 16 0))) ((1 + 64 + 31) div 32) = Inr (ks, z) \<and>
           length ks = (unat (1 :: u32) + 95) div 32 \<and>
           Hash \<lparr>eia3_zuc = projr (NewZUC (replicate 16 0) (replicate 16 0))\<rparr> [0] 1 =
             Inr (eia3_mac ks [0] (unat (1 :: u32)), \<lparr>eia3_zuc = z\<rparr>))"
  using Hash_correct [of "\<lparr>eia3_zuc = projr (NewZUC (replicate 16 0) (replicate 16 0))\<rparr>" 1 "[0]"] NewZUC_ready [of "replicate 16 0" "replicate 16 0"]
  by simp

text \<open>
  C19: \<open>Verify\<close>, on a transform in the state \<open>Hash\<close> would start from, accepts a
  tag exactly when it is the specified tag of the message.
\<close>

theorem Verify_correct:
  assumes "ZUC_inv (eia3_zuc e)" "is_initialized (eia3_zuc e)"
    and "unat blen \<le> 4294967200" "unat blen \<le> 8 * length m"
  shows "\<exists>ks z. GenerateKeystream (eia3_zuc e) ((blen + 64 + 31) div 32) = Inr (ks, z) \<and>
                Verify e m blen mac = Inr (mac = eia3_mac ks m (unat blen), e\<lparr>eia3_zuc := z\<rparr>)"
proof -
  obtain ks z where "GenerateKeystream (eia3_zuc e) ((blen + 64 + 31) div 32) = Inr (ks, z)"
    using GenerateKeystream_progress [OF assms(1,2)] by blast
  then show ?thesis
    using Hash_spec [OF assms(3,4)] by (auto simp: Verify_def)
qed

theorem Verify_correct_witness:
  "ZUC_inv (projr (NewZUC (replicate 16 0) (replicate 16 0))) \<and> is_initialized (projr (NewZUC (replicate 16 0) (replicate 16 0))) \<and>
   unat (1 :: u32) \<le> 4294967200 \<and> unat (1 :: u32) \<le> 8 * length [0 :: u8] \<and>
   (\<exists>ks z. GenerateKeystream (projr (NewZUC (replicate 16 0) (replicate 16 0))) ((1 + 64 + 31) div 32) = Inr (ks, z) \<and>
           Verify \<lparr>eia3_zuc = projr (NewZUC (replicate 16 0) (replicate 16 0))\<rparr> [0] 1 [1, 2, 3, 4] =
             Inr ([1, 2, 3, 4] = eia3_mac ks [0] (unat (1 :: u32)), \<lparr>eia3_zuc = z\<rparr>))"
  using Verify_correct [of "\<lparr>eia3_zuc = projr (NewZUC (replicate 16 0) (replicate 16 0))\<rparr>" 1 "[0]" "[1, 2, 3, 4]"]
    NewZUC_ready [of "replicate 16 0" "replicate 16 0"]
  by simp

text \<open>
  C20: A message holding fewer than \<open>blen\<close> bits makes \<open>Hash\<close> panic with an
  index out of range (the read of \<open>m[i/8]\<close>).
\<close>

theorem Hash_short_message:
  assumes "ZUC_inv (eia3_zuc e)" "is_initialized (eia3_zuc e)"
    and "8 * length m < unat blen"
  shows "Hash e m blen = Inl IndexOutOfRange"
proof -
  obtain ks z where ks: "GenerateKeystream (eia3_zuc e) ((blen + 64 + 31) div 32) = Inr (ks, z)"
    using GenerateKeystream_progress [OF assms(1,2)] by blast
  have "\<not> (\<exists>r. hash_bits m ks 0 (unat blen) 0 = Inr r)"
    using hash_bits_reads [of m ks 0 "unat blen" 0] assms(3) by auto
  then obtain err where "hash_bits m ks 0 (unat blen) 0 = Inl err"
    by (cases "hash_bits m ks 0 (unat blen) 0") auto
  then show ?thesis
    using ks hash_bits_Inl by (auto simp: Hash_def)
qed

theorem Hash_short_message_witness:
  "ZUC_inv (projr (NewZUC (replicate 16 0) (replicate 16 0))) \<and> is_initialized (projr (NewZUC (replicate 16 0) (replicate 16 0))) \<and> 8 * length [0 :: u8] < unat (9 :: u32) \<and>
   Hash \<lparr>eia3_zuc = projr (NewZUC (replicate 16 0) (replicate 16 0))\<rparr> [0] 9 = Inl IndexOutOfRange"
  using Hash_short_message [of "\<lparr>eia3_zuc = projr (NewZUC (replicate 16 0) (replicate 16 0))\<rparr>" "[0]" 9]
    NewZUC_ready [of "replicate 16 0" "replicate 16 0"]
  by simp


text \<open>
  C21: For \<open>blen \<ge> 2^32 - 64\<close> the \<open>uint32\<close> sum \<open>n = blen + 64\<close> wraps, at most
  two keystream words are drawn, and \<open>Hash\<close> always panics with an index out
  of range, whatever the message.
\<close>

theorem Hash_blen_wrap:
  assumes "ZUC_inv (eia3_zuc e)" "is_initialized (eia3_zuc e)"
    and "4294967232 \<le> unat blen"
  shows "Hash e m blen = Inl IndexOutOfRange"
proof -
  obtain ks z where ks: "GenerateKeystream (eia3_zuc e) ((blen + 64 + 31) div 32) = Inr (ks, z)"
    "length ks = unat ((blen + 64 + 31) div 32)"
    using GenerateKeystream_progress [OF assms(1,2)] by blast
  have "length ks \<le> unat blen div 32"
    using ks(2) hash_keylength_wrap [OF assms(3)] assms(3) by linarith
  then have "getZi ks blen = Inl IndexOutOfRange"
    by (rule getZi_beyond)
  then show ?thesis
    using ks(1) hash_bits_Inl by (auto simp: Hash_def split: sum.splits)
qed

theorem Hash_blen_wrap_witness:
  "ZUC_inv (projr (NewZUC (replicate 16 0) (replicate 16 0))) \<and> is_initialized (projr (NewZUC (replicate 16 0) (replicate 16 0))) \<and> 4294967232 \<le> unat (4294967295 :: u32) \<and>
   Hash \<lparr>eia3_zuc = projr (NewZUC (replicate 16 0) (replicate 16 0))\<rparr> (replicate 536870912 255) 4294967295 = Inl IndexOutOfRange"
  using Hash_blen_wrap [of "\<lparr>eia3_zuc = projr (NewZUC (replicate 16 0) (replicate 16 0))\<rparr>" 4294967295 "replicate 536870912 255"]
    NewZUC_ready [of "replicate 16 0" "replicate 16 0"]
  by simp

text \<open>
  C22: The IV of \<open>NewEIA3\<close>: the big-endian count, the byte \<open>bearer << 3\<close> and
  three zero bytes, then the count again with the direction bit XORed into
  its top bit, and the bearer byte, a zero byte, the direction bit in bit 7
  and a zero byte.
\<close>

theorem eia3_iv_layout:
  "eia3_iv count bearer direction =
     (let c = put_uint32_be count;
          bb = ucast (push_bit 3 bearer AND 0xf8);
          d = ucast (push_bit 7 (direction AND 1))
      in c @ [bb, 0, 0, 0] @ (c[0 := c ! 0 XOR d]) @ [bb, 0, d, 0])"
proof -
  have r: "replicate 12 (0 :: u8) = [0, 0, 0, 0, 0, 0, 0, 0, 0, 0, 0, 0]"
    by (simp add: numeral_eq_Suc)
  show ?thesis
    by (simp add: eia3_iv_def copy_slice_def put_uint32_be_def Let_def r)
qed


lemma ks_bit_append: "j < 32 * length ks1 \<Longrightarrow> ks_bit (ks1 @ ks2) j = ks_bit ks1 j"
  by (simp add: ks_bit_def nth_append less_mult_imp_div_less mult.commute)

lemma zword_append: "j + 32 \<le> 32 * length ks1 \<Longrightarrow> zword (ks1 @ ks2) j = zword ks1 j"
  unfolding zword_def by (rule fold_cong) (simp_all add: ks_bit_append)

lemma eia3_T_append:
  assumes "L + 31 < 32 * length ks1"
  shows "eia3_T (ks1 @ ks2) m L = eia3_T ks1 m L"
  using assms
proof (induction L)
  case 0
  then show ?case by (simp add: eia3_T_def)
next
  case (Suc L)
  then have "zword (ks1 @ ks2) L = zword ks1 L" by (intro zword_append) simp
  with Suc show ?case by (simp add: eia3_T_def)
qed

lemma eia3_mac_append:
  assumes "length ks1 = (L + 95) div 32"
  shows "eia3_mac (ks1 @ ks2) m L = eia3_mac ks1 m L"
proof -
  note b = hash_words_bounds [of L]
  then show ?thesis
    using assms by (simp add: eia3_mac_def eia3_T_append zword_append nth_append)
qed

text \<open>
  C30: \<open>Hash\<close> followed by \<open>Verify\<close> on the same transform object draw
  consecutive segments of one keystream: \<open>Verify\<close> compares the given tag with
  the tag of the words after the \<open>\<lceil>(blen\<^sub>1 + 64)/32\<rceil>\<close> that \<open>Hash\<close>
  consumed. So an object that computed a tag does not check that tag against
  the keystream that produced it; both sides need transforms in the same state.
\<close>

theorem Verify_after_Hash:
  assumes "ZUC_inv (eia3_zuc e)" "is_initialized (eia3_zuc e)"
    and "unat b1 \<le> 4294967200" "unat b1 \<le> 8 * length m1"
    and "unat b2 \<le> 4294967200" "unat b2 \<le> 8 * length m2"
  shows "\<exists>ks z e1. keystream_loop ((unat b1 + 95) div 32 + (unat b2 + 95) div 32) (eia3_zuc e) [] =
             Inr (ks, z) \<and>
           Hash e m1 b1 = Inr (eia3_mac ks m1 (unat b1), e1) \<and>
           Verify e1 m2 b2 mac =
             Inr (mac = eia3_mac (drop ((unat b1 + 95) div 32) ks) m2 (unat b2), e\<lparr>eia3_zuc := z\<rparr>)"
proof -
  obtain ks1 z1 where g1: "GenerateKeystream (eia3_zuc e) ((b1 + 64 + 31) div 32) = Inr (ks1, z1)"
    "length ks1 = unat ((b1 + 64 + 31) div 32)" "ZUC_inv z1" "is_initialized z1"
    using GenerateKeystream_progress [OF assms(1,2)] by blast
  obtain ks2 z2 where g2: "GenerateKeystream z1 ((b2 + 64 + 31) div 32) = Inr (ks2, z2)"
    using GenerateKeystream_progress [OF g1(3,4)] by blast
  have l1: "length ks1 = (unat b1 + 95) div 32"
    using g1(2) unat_hash_keylength [OF assms(3)] by simp
  have k: "keystream_loop ((unat b1 + 95) div 32 + (unat b2 + 95) div 32) (eia3_zuc e) [] =
      Inr (ks1 @ ks2, z2)"
    using GenerateKeystream_concat [OF g1(1) g2] unat_hash_keylength [OF assms(3)]
      unat_hash_keylength [OF assms(5)] by simp
  have h: "Hash e m1 b1 = Inr (eia3_mac (ks1 @ ks2) m1 (unat b1), e\<lparr>eia3_zuc := z1\<rparr>)"
    using Hash_spec [OF assms(3,4) g1(1)] eia3_mac_append [OF l1] by simp
  have v: "Verify (e\<lparr>eia3_zuc := z1\<rparr>) m2 b2 mac =
      Inr (mac = eia3_mac (drop ((unat b1 + 95) div 32) (ks1 @ ks2)) m2 (unat b2), e\<lparr>eia3_zuc := z2\<rparr>)"
    using Hash_spec [OF assms(5,6), of "e\<lparr>eia3_zuc := z1\<rparr>"] g2 l1 by (auto simp: Verify_def)
  show ?thesis
    using k h v by blast
qed

theorem Verify_after_Hash_witness:
  "ZUC_inv (projr (NewZUC (replicate 16 0) (replicate 16 0))) \<and>
   is_initialized (projr (NewZUC (replicate 16 0) (replicate 16 0))) \<and>
   unat (1 :: u32) \<le> 4294967200 \<and> unat (1 :: u32) \<le> 8 * length [0 :: u8] \<and>
   (\<exists>ks z e1. keystream_loop ((unat (1 :: u32) + 95) div 32 + (unat (1 :: u32) + 95) div 32)
        (projr (NewZUC (replicate 16 0) (replicate 16 0))) [] = Inr (ks, z) \<and>
      Hash \<lparr>eia3_zuc = projr (NewZUC (replicate 16 0) (replicate 16 0))\<rparr> [0] 1 =
        Inr (eia3_mac ks [0] (unat (1 :: u32)), e1) \<and>
      Verify e1 [0] 1 [0, 0, 0, 0] =
        Inr ([0, 0, 0, 0] = eia3_mac (drop ((unat (1 :: u32) + 95) div 32) ks) [0] (unat (1 :: u32)),
             \<lparr>eia3_zuc = z\<rparr>))"
  using Verify_after_Hash [of "\<lparr>eia3_zuc = projr (NewZUC (replicate 16 0) (replicate 16 0))\<rparr>"
      1 "[0]" 1 "[0]" "[0, 0, 0, 0]"]
    NewZUC_ready [of "replicate 16 0" "replicate 16 0"]
  by simp

end
