(* ===== verification/Spec2Isabelle.thy ===== *)
theory Spec2Isabelle
  imports ZUC ZUC_Handle EEA3 EIA3
begin

text \<open>
  A verification development of the Go package \<open>zuc\<close> (the ZUC stream cipher
  and the 3GPP transforms 128-EEA3 and 128-EIA3 built on it), as a shallow
  embedding in HOL.

  \<^bold>\<open>The program.\<close> \<open>src/common.go\<close> holds the word helpers: addition
  modulo \<open>2^31 - 1\<close> (\<open>addM\<close>), multiplication by a power of two modulo
  \<open>2^31 - 1\<close> (\<open>mulByPow2\<close>), rotation (\<open>rot\<close>), byte packing (\<open>makeU32\<close>,
  \<open>makeU31\<close>) and the diffusion transforms \<open>l1\<close>, \<open>l2\<close>. \<open>src/zuc.go\<close> holds
  the cipher: a handle \<open>ZUC\<close> with pointers to the LFSR (sixteen 31-bit cells),
  the bit-reorganised words \<open>BRC\<close> and the memory cells \<open>F\<close> of the nonlinear
  function, with \<open>Initialization\<close>, \<open>NextKey\<close>, \<open>GenerateKeystream\<close> and
  \<open>NewZUC\<close>. \<open>src/eea3/eea3.go\<close> derives an IV from count, bearer and direction,
  keys a ZUC handle with it and XORs the keystream into a message.
  \<open>src/eia3/eia3.go\<close> derives its IV the same way and computes a 32-bit tag
  from keystream windows at the set bits of the message.

  \<^bold>\<open>Theories.\<close>
  \<^item> \<open>ZUC_Prelude\<close>: the machine types \<open>u8 = 8 word\<close>, \<open>u32 = 32 word\<close>, the
    \<open>panic\<close> datatype of Go run-time failures (results are \<open>panic + 'a\<close>, the
    panic on the left) and shared word lemmas.
  \<^item> \<open>Tables\<close>: the S-boxes \<open>S0\<close>, \<open>S1\<close> and the constants \<open>D\<close>. The Go file
    holding them is not among the sources; the values are those of the ZUC
    specification (Document 2 of the ETSI/SAGE specification).
  \<^item> \<open>Common\<close>: one definition per function of \<open>src/common.go\<close>, with uint32
    wrap-around kept by the word type and Go's uint8 shift counts by \<open>unat\<close>.
    Its lemmas refine \<open>addM\<close> and \<open>mulByPow2\<close> to arithmetic modulo
    \<open>2^31 - 1\<close> on the representation \<open>[1, 2^31 - 1]\<close> (\<open>m31_norm\<close>), show
    \<open>rot\<close> is \<open>word_rotl\<close> for counts up to 32, that \<open>l1\<close>, \<open>l2\<close> are
    permutations of the 32-bit words with the explicit inverses \<open>L1_inv\<close>,
    \<open>L2_inv\<close> (sums of rotations), that \<open>makeU32\<close> inverts the big-endian
    split, and that \<open>makeU31\<close> packs its three fields at bits 23, 8 and 0 of a
    31-bit cell.
  \<^item> \<open>ZUC\<close>: the structs as records, the handle's pointers as \<open>option\<close>
    fields (a nil dereference would be the panic \<open>NilDereference\<close>). Each
    method is a function from the old to the new state: \<open>update\<close>,
    \<open>WithInitialisationMode\<close>, \<open>WithWorkMode\<close>, \<open>bitReorganization\<close>, \<open>f_F\<close>
    (Go's \<open>f_\<close>), \<open>Initialization\<close> (with the 32 rounds as \<open>init_rounds\<close>),
    \<open>NextKey\<close> (with the first call's warm-up step \<open>warmup\<close>),
    \<open>GenerateKeystream\<close> (its \<open>uint32\<close> counter loop \<open>gen_loop\<close>, related to
    the loop counted by iterations left, \<open>keystream_loop\<close>) and \<open>NewZUC\<close>. Its lemmas
    refine both LFSR modes to the recurrence of the specification over the
    residues (\<open>cells\<close>, \<open>feedback_spec\<close>), keep the cell invariant \<open>LFSR_ok\<close>
    through initialisation and work mode, and identify \<open>bitReorganization\<close>
    with the specification's half-word concatenation (\<open>BR_spec\<close>).
  \<^item> \<open>ZUC_Handle\<close>: the handle as a whole. Over the inductive set
    \<open>zuc_reachable\<close> of handles a client can hold, its lemmas prove the
    handle invariant \<open>ZUC_inv\<close>, the absence of nil dereferences, the errors
    and the progress of \<open>NextKey\<close> and \<open>GenerateKeystream\<close>, that
    re-initialisation forgets all earlier state, and that keystream requests
    compose (\<open>GenerateKeystream_split\<close>).
  \<^item> \<open>EEA3\<close>: \<open>NewEEA3\<close>, \<open>Encrypt\<close>, \<open>Decrypt\<close> of \<open>src/eea3/eea3.go\<close>,
    with the IV layout (\<open>eea3_iv\<close>), the bounds-checked byte loops
    \<open>enc_bytes\<close>, \<open>enc_words\<close> and the zeroing loop \<open>zero_from\<close>; Go's
    \<open>copy\<close> and \<open>binary.BigEndian.PutUint32\<close> are \<open>copy_slice\<close> and
    \<open>put_uint32_be\<close> of the prelude. The specification side is the byte-level
    transform \<open>eea3_xor\<close> (message XOR keystream bytes, last partial byte
    masked, tail zeroed). The lemmas prove \<open>Encrypt\<close> equal to it, the round
    trip (which clears the bits beyond the bit length), the panic on a short
    message, the wrap-around of \<open>blength + 31\<close>, the length of the output on
    every branch, and that successive calls on one object use consecutive
    keystream segments.
  \<^item> \<open>EIA3\<close>: \<open>NewEIA3\<close>, \<open>getZi\<close>, \<open>Hash\<close> (with the bit loop \<open>hash_bits\<close>)
    and \<open>Verify\<close> of \<open>src/eia3/eia3.go\<close>. The specification side reads the
    keystream and the message as bit strings (\<open>ks_bit\<close>, \<open>msg_bit\<close>), takes
    32-bit windows (\<open>zword\<close>, built bit by bit) and defines the tag
    \<open>eia3_mac\<close>. The lemmas prove \<open>getZi\<close> equal to the window, \<open>Hash\<close> and
    \<open>Verify\<close> equal to the specified tag, the panics on a short message and on
    the wrap-around of \<open>blen + 64\<close>, and that \<open>Verify\<close> after \<open>Hash\<close> on
    one object checks against the next keystream segment.
  \<^item> This theory: the properties that span the components (a fresh handle
    yields any number of keystream words; a transform built from a 16-byte
    key encrypts and hashes to the specification; shorter keys panic).

  \<^bold>\<open>Errors.\<close> Every Go panic is a value: \<open>NotInitialized\<close> for the explicit
  panic of \<open>NextKey\<close>, \<open>IndexOutOfRange\<close> for every bounds-checked slice access
  (key and IV bytes, message bytes, keystream words, output bytes),
  \<open>NilDereference\<close> for a nil handle field. The S-box reads in \<open>f_F\<close> are
  within the tables by the bound lemmas \<open>zuc_bounds\<close>, so they are plain \<open>!\<close>.

  \<^bold>\<open>Loops and bounds.\<close> Every loop of the code has a bound fixed before it
  starts: the 32 initialisation rounds, \<open>length\<close> keystream words, four bytes
  per keystream word, the bytes of the output, the bits of the message. They
  are recursion on a counter (\<open>fun\<close>) or \<open>function\<close>s with a measure, so every
  model is total and no fuel is needed. The keystream loop keeps Go's
  \<open>uint32\<close> counter; its measure \<open>unat length - unat i\<close> decreases because the
  increment cannot wrap below the bound (\<open>unat_incr_less\<close>), and
  \<open>gen_loop_iterations\<close> counts its iterations.

  \<^bold>\<open>Evaluation.\<close> All definitions are executable. The witnesses use
  symbolic handles (\<open>projr (NewZUC \<dots>)\<close> with \<open>NewZUC_ready\<close>) so that the 32
  initialisation rounds are never evaluated in a proof.

  \<^bold>\<open>Not modelled.\<close> The test drivers (\<open>*_test.go\<close>) and their
  known-answer vectors; the pointer identity of the handles (each operation
  returns the new handle, so aliasing shows only as the explicit threading of
  the returned state, as in \<open>Encrypt_twice\<close> and \<open>Verify_after_Hash\<close>); the
  text of the \<open>panic\<close> messages.
\<close>

section \<open>Properties spanning the components\<close>

text \<open>
  C5: For a key and an IV of at least 16 bytes, \<open>NewZUC\<close> returns a handle, and
  \<open>GenerateKeystream\<close> on it returns exactly \<open>len\<close> words and a handle that is
  again reachable by the public operations.
\<close>

theorem NewZUC_GenerateKeystream:
  assumes "16 \<le> length k" "16 \<le> length iv"
  shows "\<exists>z ks z'. NewZUC k iv = Inr z \<and> GenerateKeystream z len = Inr (ks, z') \<and>
                   length ks = unat len \<and> zuc_reachable z'"
proof -
  obtain z where z: "NewZUC k iv = Inr z"
    using NewZUC_Inr [OF assms] by blast
  then have "ZUC_inv z" "is_initialized z"
    using ZUC_inv_Initialization [of ZUC_zero k iv z] by (simp_all add: NewZUC_def)
  then obtain ks z' where ks: "keystream_loop (unat len) z [] = Inr (ks, z')"
    using keystream_loop_progress by blast
  have "zuc_reachable z'"
    using keystream_loop_reachable [OF NewZUC_reachable [OF z] ks] .
  with z ks show ?thesis
    by (auto simp: GenerateKeystream_eq dest: keystream_loop_length)
qed

theorem NewZUC_GenerateKeystream_witness:
  "16 \<le> length (replicate 16 (0 :: u8)) \<and>
   (\<exists>z ks z'. NewZUC (replicate 16 0) (replicate 16 0) = Inr z \<and>
      GenerateKeystream z 2 = Inr (ks, z') \<and> length ks = 2 \<and> zuc_reachable z')"
  using NewZUC_GenerateKeystream [of "replicate 16 0" "replicate 16 0" 2] by simp

text \<open>
  C6: On a handle that was never initialised, asking for a non-empty keystream
  fails with the \<open>NotInitialized\<close> panic and dereferences nothing.
\<close>

theorem GenerateKeystream_not_initialized:
  "\<not> is_initialized z \<Longrightarrow> 0 < len \<Longrightarrow> GenerateKeystream z len = Inl NotInitialized"
  by (cases "unat len") (auto simp: GenerateKeystream_eq NextKey_not_initialized unat_eq_zero)

theorem GenerateKeystream_not_initialized_witness:
  "GenerateKeystream ZUC_zero 1 = Inl NotInitialized"
  using GenerateKeystream_not_initialized [of ZUC_zero 1] by (simp add: ZUC_zero_def)


lemma length_eea3_iv: "length (eea3_iv count bearer direction) = 16"
  by (simp add: eea3_iv_def copy_slice_def Let_def put_uint32_be_def)

lemma length_eia3_iv: "length (eia3_iv count bearer direction) = 16"
  by (simp add: eia3_iv_def copy_slice_def Let_def put_uint32_be_def)

text \<open>
  C23: With a key of 16 bytes, \<open>NewEEA3\<close> returns a transform on which
  \<open>Encrypt\<close>, for a bit length \<open>n \<le> 2^32 - 32\<close> (so that \<open>n + 31\<close> does not
  wrap) and a message of at least \<open>\<lceil>n/8\<rceil>\<close> bytes, returns without panicking
  the specified ciphertext of the keystream of the key and the IV of
  \<open>count\<close>, \<open>bearer\<close> and \<open>direction\<close>.
\<close>

theorem NewEEA3_Encrypt:
  assumes "16 \<le> length ck" "unat n \<le> 4294967264" "nbytes n \<le> length m"
  shows "\<exists>e ks z. NewEEA3 ck count bearer direction = Inr e \<and>
           NewZUC ck (eea3_iv count bearer direction) = Inr (eea3_zuc e) \<and>
           GenerateKeystream (eea3_zuc e) ((n + 31) div 32) = Inr (ks, z) \<and>
           Encrypt e m n = Inr (eea3_xor ks m n, e\<lparr>eea3_zuc := z\<rparr>)"
proof -
  let ?iv = "eea3_iv count bearer direction"
  have r: "NewZUC ck ?iv = Inr (projr (NewZUC ck ?iv))" "ZUC_inv (projr (NewZUC ck ?iv))"
    "is_initialized (projr (NewZUC ck ?iv))"
    using NewZUC_ready [of ck ?iv] assms(1) by (simp_all add: length_eea3_iv)
  define e where "e = \<lparr>eea3_zuc = projr (NewZUC ck ?iv)\<rparr>"
  have z: "eea3_zuc e = projr (NewZUC ck ?iv)"
    by (simp add: e_def)
  have n: "NewEEA3 ck count bearer direction = Inr e"
    unfolding NewEEA3_def e_def by (subst r(1)) simp
  have nz: "NewZUC ck ?iv = Inr (eea3_zuc e)"
    unfolding z by (rule r(1))
  obtain ks z where ks: "GenerateKeystream (eea3_zuc e) ((n + 31) div 32) = Inr (ks, z)"
    using GenerateKeystream_progress r(2,3) unfolding z by blast
  show ?thesis
    by (intro exI conjI) (rule n, rule nz, rule ks, rule Encrypt_spec [OF assms(2,3) ks])
qed

theorem NewEEA3_Encrypt_witness:
  "16 \<le> length (replicate 16 (0 :: u8)) \<and> unat (8 :: u32) \<le> 4294967264 \<and> nbytes 8 \<le> length [0 :: u8] \<and>
   (\<exists>e ks z. NewEEA3 (replicate 16 0) 0 0 KEY_UPLINK = Inr e \<and>
      NewZUC (replicate 16 0) (eea3_iv 0 0 KEY_UPLINK) = Inr (eea3_zuc e) \<and>
      GenerateKeystream (eea3_zuc e) ((8 + 31) div 32) = Inr (ks, z) \<and>
      Encrypt e [0] 8 = Inr (eea3_xor ks [0] 8, e\<lparr>eea3_zuc := z\<rparr>))"
  using NewEEA3_Encrypt [of "replicate 16 0" 8 "[0]" 0 0 KEY_UPLINK] by (simp add: nbytes_def)

text \<open>
  C24: With a key of 16 bytes, \<open>NewEIA3\<close> returns a transform on which
  \<open>Hash\<close>, for a bit length \<open>blen \<le> 2^32 - 96\<close> (so that \<open>blen + 64 + 31\<close>
  does not wrap) and a message of at least \<open>blen\<close> bits, returns without
  panicking the specified tag of the keystream of the key and the IV of
  \<open>count\<close>, \<open>bearer\<close> and \<open>direction\<close>.
\<close>

theorem NewEIA3_Hash:
  assumes "16 \<le> length ik" "unat blen \<le> 4294967200" "unat blen \<le> 8 * length m"
  shows "\<exists>e ks z. NewEIA3 ik count bearer direction = Inr e \<and>
           NewZUC ik (eia3_iv count bearer direction) = Inr (eia3_zuc e) \<and>
           GenerateKeystream (eia3_zuc e) ((blen + 64 + 31) div 32) = Inr (ks, z) \<and>
           Hash e m blen = Inr (eia3_mac ks m (unat blen), e\<lparr>eia3_zuc := z\<rparr>)"
proof -
  let ?iv = "eia3_iv count bearer direction"
  have r: "NewZUC ik ?iv = Inr (projr (NewZUC ik ?iv))" "ZUC_inv (projr (NewZUC ik ?iv))"
    "is_initialized (projr (NewZUC ik ?iv))"
    using NewZUC_ready [of ik ?iv] assms(1) by (simp_all add: length_eia3_iv)
  define e where "e = \<lparr>eia3_zuc = projr (NewZUC ik ?iv)\<rparr>"
  have z: "eia3_zuc e = projr (NewZUC ik ?iv)"
    by (simp add: e_def)
  have n: "NewEIA3 ik count bearer direction = Inr e"
    unfolding NewEIA3_def e_def by (subst r(1)) simp
  have nz: "NewZUC ik ?iv = Inr (eia3_zuc e)"
    unfolding z by (rule r(1))
  obtain ks z where ks: "GenerateKeystream (eia3_zuc e) ((blen + 64 + 31) div 32) = Inr (ks, z)"
    using GenerateKeystream_progress r(2,3) unfolding z by blast
  show ?thesis
    by (intro exI conjI) (rule n, rule nz, rule ks, rule Hash_spec [OF assms(2,3) ks])
qed

theorem NewEIA3_Hash_witness:
  "16 \<le> length (replicate 16 (0 :: u8)) \<and> unat (1 :: u32) \<le> 4294967200 \<and>
   unat (1 :: u32) \<le> 8 * length [0 :: u8] \<and>
   (\<exists>e ks z. NewEIA3 (replicate 16 0) 0 0 KEY_UPLINK = Inr e \<and>
      NewZUC (replicate 16 0) (eia3_iv 0 0 KEY_UPLINK) = Inr (eia3_zuc e) \<and>
      GenerateKeystream (eia3_zuc e) ((1 + 64 + 31) div 32) = Inr (ks, z) \<and>
      Hash e [0] 1 = Inr (eia3_mac ks [0] (unat (1 :: u32)), e\<lparr>eia3_zuc := z\<rparr>))"
  using NewEIA3_Hash [of "replicate 16 0" 1 "[0]" 0 0 KEY_UPLINK] by simp

text \<open>
  C25: A key shorter than 16 bytes makes \<open>NewEEA3\<close> and \<open>NewEIA3\<close> panic with an
  index out of range (\<open>k[i]\<close> in \<open>Initialization\<close>); the specification's
  \<open>InvalidLength\<close> error does not exist in the code.
\<close>

theorem New_short_key:
  "length k < 16 \<Longrightarrow>
     NewEEA3 k count bearer direction = Inl IndexOutOfRange \<and>
     NewEIA3 k count bearer direction = Inl IndexOutOfRange"
  by (simp add: NewEEA3_def NewEIA3_def NewZUC_def Initialization_short)

theorem New_short_key_witness:
  "length [1, 2, 3 :: u8] < 16 \<and> NewEEA3 [1, 2, 3] 5 6 KEY_DOWNLINK = Inl IndexOutOfRange \<and>
     NewEIA3 [1, 2, 3] 5 6 KEY_DOWNLINK = Inl IndexOutOfRange"
  using New_short_key [of "[1, 2, 3]" 5 6 KEY_DOWNLINK] by simp

end
